theory Spec2Isabelle
  imports Main "HOL-Library.Sublist" "HOL-Library.Multiset"
begin

section \<open>Data model\<close>

text \<open>
  A Python \<open>str\<close> is a sequence of Unicode code points; it is modelled as a list of
  natural numbers, one per code point, so that \<open>len\<close>, \<open>strip\<close>, \<open>splitlines\<close> and
  \<open>endswith\<close> count what Python counts.
\<close>

type_synonym pystr = "nat list"

datatype py_error = IndexError | AttributeError | OverflowError

text \<open>\<open>Base.TranslationStatus\<close>.\<close>

datatype translation_status = UNTRANSLATED | TRANSLATING | TRANSLATED | EXCLUDED

text \<open>
  Modelled from the spec: \<open>CacheItem.FileType\<close> is declared in \<open>module/Cache/CacheItem.py\<close>;
  the only tag the code under study distinguishes is \<open>KVJSON\<close>.
\<close>

datatype file_type = KVJSON | OTHER_FILE_TYPE pystr

text \<open>
  Modelled from the spec: the class \<open>CacheItem\<close> (\<open>module/Cache/CacheItem.py\<close>) is a value
  object with the attributes below; \<open>get_x\<close> reads a field, \<open>set_x\<close> writes it, and
  \<open>CacheItem(item.get_vars())\<close> builds a fresh item with the same attribute values.
\<close>

record CacheItem =
  src :: pystr
  dst :: pystr
  status :: translation_status
  file_path :: pystr
  file_type :: file_type
  token_count :: int
  retry_count :: int
  skip_internal_filter :: bool
  row :: int

section \<open>Python string primitives\<close>

text \<open>Code points for which \<open>str.isspace\<close> holds; \<open>str.strip()\<close> removes them at both ends.\<close>

definition py_isspace :: "nat \<Rightarrow> bool" where
  "py_isspace c =
     ((9 \<le> c \<and> c \<le> 13) \<or> (28 \<le> c \<and> c \<le> 32) \<or> c = 133 \<or> c = 160 \<or> c = 5760
      \<or> (8192 \<le> c \<and> c \<le> 8202) \<or> c = 8232 \<or> c = 8233 \<or> c = 8239 \<or> c = 8287
      \<or> c = 12288)"

definition strip :: "pystr \<Rightarrow> pystr" where
  "strip s = rev (dropWhile py_isspace (rev (dropWhile py_isspace s)))"

text \<open>Line boundaries of \<open>str.splitlines\<close>; CR LF counts as one boundary.\<close>

definition py_islinebreak :: "nat \<Rightarrow> bool" where
  "py_islinebreak c =
     ((10 \<le> c \<and> c \<le> 13) \<or> (28 \<le> c \<and> c \<le> 30) \<or> c = 133 \<or> c = 8232 \<or> c = 8233)"

fun splitlines_from :: "pystr \<Rightarrow> pystr \<Rightarrow> pystr list" where
  "splitlines_from cur [] = (if cur = [] then [] else [rev cur])"
| "splitlines_from cur [c] =
     (if py_islinebreak c then [rev cur] else [rev (c # cur)])"
| "splitlines_from cur (c # d # cs) =
     (if c = 13 \<and> d = 10 then rev cur # splitlines_from [] cs
      else if py_islinebreak c then rev cur # splitlines_from [] (d # cs)
      else splitlines_from (c # cur) (d # cs))"

definition splitlines :: "pystr \<Rightarrow> pystr list" where
  "splitlines s = splitlines_from [] s"

text \<open>\<open>s.endswith(p)\<close> for one suffix, and for a tuple of suffixes.\<close>

definition endswith1 :: "pystr \<Rightarrow> pystr \<Rightarrow> bool" where
  "endswith1 s p = (length p \<le> length s \<and> drop (length s - length p) s = p)"

definition endswith :: "pystr \<Rightarrow> pystr list \<Rightarrow> bool" where
  "endswith s ps = list_ex (endswith1 s) ps"

section \<open>CacheManager: chunk planning\<close>

text \<open>
  \<open>CacheManager.END_LINE_PUNCTUATION\<close>: the thirteen one-character strings
  \<open>. \<close> U+3002 \<open>? \<close> U+FF1F \<open>! \<close> U+FF01 U+2026 \<open>' "\<close> U+2019 U+201D U+300D U+300F.
\<close>

definition END_LINE_PUNCTUATION :: "pystr list" where
  "END_LINE_PUNCTUATION =
     [[46], [12290], [63], [65311], [33], [65281], [8230], [39], [34], [8217], [8221],
      [12301], [12303]]"

text \<open>\<open>range(n, -1, -1)\<close>: the indices \<open>n, n - 1, \<dots>, 0\<close>, none when \<open>n < 0\<close>.\<close>

definition range_down :: "int \<Rightarrow> nat list" where
  "range_down n = rev [0 ..< nat (n + 1)]"

text \<open>
  The body of the loop of \<open>generate_preceding_chunks\<close>, one equation per remaining index.
  \<open>self.items[i]\<close> raises \<open>IndexError\<close> out of range, and so does \<open>chunk[-1]\<close> on an empty
  chunk; \<open>continue\<close> is the recursive call with \<open>result\<close> unchanged, \<open>break\<close> returns.
\<close>

fun preceding_walk ::
  "CacheItem list \<Rightarrow> CacheItem list \<Rightarrow> int \<Rightarrow> nat list \<Rightarrow> CacheItem list
   \<Rightarrow> py_error + CacheItem list" where
  "preceding_walk items chunk plt [] result = Inr result"
| "preceding_walk items chunk plt (i # is) result =
     (if length items \<le> i then Inl IndexError
      else let item = items ! i in
        if status item = EXCLUDED then preceding_walk items chunk plt is result
        else let s = strip (src item) in
          if s = [] then preceding_walk items chunk plt is result
          else if plt \<le> int (length result) then Inr result
          else if chunk = [] then Inl IndexError
          else if file_path item \<noteq> file_path (last chunk) then Inr result
          else if endswith s END_LINE_PUNCTUATION
               then preceding_walk items chunk plt is (result @ [item])
               else Inr result)"

definition generate_preceding_chunks ::
  "CacheItem list \<Rightarrow> CacheItem list \<Rightarrow> int \<Rightarrow> int \<Rightarrow> int \<Rightarrow> py_error + CacheItem list" where
  "generate_preceding_chunks items chunk start skp plt =
     (case preceding_walk items chunk plt
             (range_down (start - skp - int (length chunk) - 1)) [] of
        Inl e \<Rightarrow> Inl e
      | Inr result \<Rightarrow> Inr (rev result))"

text \<open>The local variables of \<open>generate_item_chunks\<close> that live across loop iterations.\<close>

record chunk_state =
  skip :: int
  line_length :: int
  token_length :: int
  chunk :: "CacheItem list"
  chunks :: "CacheItem list list"
  preceding_chunks :: "CacheItem list list"

text \<open>
  \<open>int(a / b)\<close> on Python ints. The quotient \<open>a / b\<close> is a float: the exact quotient
  rounded to the nearest double (53 significant bits, ties to the even significand), and
  \<open>OverflowError\<close> when that double would be \<open>2 ^ 1024\<close> or more. \<open>int\<close> then cuts the
  fraction off. The sign is set aside first, as the interpreter does, and the divisor is a
  positive literal in both places that use this.

  \<open>bitlen n\<close> is the number of binary digits of \<open>n\<close>, and \<open>round_half_even n d\<close> the
  integer nearest to \<open>n / d\<close>. For a quotient \<open>x\<close> with \<open>2 ^ (k - 1) \<le> x < 2 ^ k\<close> the doubles
  are \<open>2 ^ (k - 53)\<close> apart. Below \<open>1\<close> the double is \<open>1.0\<close> from \<open>1 - 2 ^ (- 54)\<close> on and
  less than \<open>1\<close> otherwise.
\<close>

fun bitlen :: "nat \<Rightarrow> nat" where
  "bitlen n = (if n = 0 then 0 else Suc (bitlen (n div 2)))"

definition round_half_even :: "nat \<Rightarrow> nat \<Rightarrow> nat" where
  "round_half_even n d =
     (let q = n div d; r = n mod d
      in if 2 * r < d then q else if d < 2 * r then q + 1 else if even q then q else q + 1)"

definition int_of_quotient :: "nat \<Rightarrow> nat \<Rightarrow> py_error + nat" where
  "int_of_quotient n d =
     (if n < d then Inr (if (2 ^ 54 - 1) * d \<le> 2 ^ 54 * n then 1 else 0)
      else let k = bitlen (n div d) in
        if k < 53 then Inr (round_half_even (n * 2 ^ (53 - k)) d div 2 ^ (53 - k))
        else let v = round_half_even n (d * 2 ^ (k - 53)) * 2 ^ (k - 53)
             in if 2 ^ 1024 \<le> v then Inl OverflowError else Inr v)"

definition py_int_truediv :: "int \<Rightarrow> nat \<Rightarrow> py_error + int" where
  "py_int_truediv a d =
     (case int_of_quotient (nat \<bar>a\<bar>) d of
        Inl e \<Rightarrow> Inl e
      | Inr v \<Rightarrow> Inr (if a < 0 then - int v else int v))"

text \<open>\<open>line_limit = max(8, int(token_threshold / 16))\<close>.\<close>

definition line_limit_of :: "int \<Rightarrow> py_error + int" where
  "line_limit_of token_threshold =
     (case py_int_truediv token_threshold 16 of
        Inl e \<Rightarrow> Inl e
      | Inr v \<Rightarrow> Inr (max 8 v))"

text \<open>\<open>sum(1 for line in item.get_src().splitlines() if line.strip())\<close>.\<close>

definition current_line_length :: "CacheItem \<Rightarrow> int" where
  "current_line_length item = int (length (filter (\<lambda>line. strip line \<noteq> []) (splitlines (src item))))"

text \<open>
  What a flush does to the state: \<open>chunks.append(chunk)\<close>, \<open>preceding_chunks.append(p)\<close>
  and \<open>skip = 0\<close>, where \<open>p\<close> is the preceding chunk computed for the chunk.
\<close>

definition flushed :: "CacheItem list \<Rightarrow> chunk_state \<Rightarrow> chunk_state" where
  "flushed p st =
     st\<lparr>chunks := chunks st @ [chunk st],
        preceding_chunks := preceding_chunks st @ [p],
        skip := 0\<rparr>"

definition flush :: "CacheItem list \<Rightarrow> int \<Rightarrow> int \<Rightarrow> chunk_state \<Rightarrow> py_error + chunk_state" where
  "flush items start plt st =
     (case generate_preceding_chunks items (chunk st) start (skip st) plt of
        Inl e \<Rightarrow> Inl e
      | Inr p \<Rightarrow> Inr (flushed p st))"

text \<open>\<open>chunk = []\<close>, \<open>line_length = 0\<close>, \<open>token_length = 0\<close>.\<close>

definition reset_chunk :: "chunk_state \<Rightarrow> chunk_state" where
  "reset_chunk st = st\<lparr>chunk := [], line_length := 0, token_length := 0\<rparr>"

text \<open>The condition of the \<open>elif\<close>: line limit, token limit, or a change of file.\<close>

definition over_limit :: "int \<Rightarrow> int \<Rightarrow> CacheItem \<Rightarrow> chunk_state \<Rightarrow> bool" where
  "over_limit line_limit token_threshold item st =
     (line_length st + current_line_length item > line_limit
      \<or> token_length st + token_count item > token_threshold
      \<or> file_path item \<noteq> file_path (last (chunk st)))"

definition admit :: "CacheItem \<Rightarrow> chunk_state \<Rightarrow> chunk_state" where
  "admit item st =
     st\<lparr>chunk := chunk st @ [item],
        line_length := line_length st + current_line_length item,
        token_length := token_length st + token_count item\<rparr>"

text \<open>The loop \<open>for i, item in enumerate(self.items)\<close>, from index \<open>i\<close> on.\<close>

fun chunk_loop ::
  "CacheItem list \<Rightarrow> int \<Rightarrow> int \<Rightarrow> int \<Rightarrow> nat \<Rightarrow> CacheItem list \<Rightarrow> chunk_state
   \<Rightarrow> py_error + chunk_state" where
  "chunk_loop items line_limit token_threshold plt i [] st = Inr st"
| "chunk_loop items line_limit token_threshold plt i (item # rest) st =
     (if status item \<noteq> UNTRANSLATED
      then chunk_loop items line_limit token_threshold plt (Suc i) rest (st\<lparr>skip := skip st + 1\<rparr>)
      else if chunk st = []
      then chunk_loop items line_limit token_threshold plt (Suc i) rest (admit item st)
      else if over_limit line_limit token_threshold item st
      then (case flush items (int i) plt st of
              Inl e \<Rightarrow> Inl e
            | Inr st' \<Rightarrow>
                chunk_loop items line_limit token_threshold plt (Suc i) rest
                  (admit item (reset_chunk st')))
      else chunk_loop items line_limit token_threshold plt (Suc i) rest (admit item st))"

definition chunk_state_init :: chunk_state where
  "chunk_state_init =
     \<lparr>skip = 0, line_length = 0, token_length = 0, chunk = [], chunks = [],
      preceding_chunks = []\<rparr>"

text \<open>
  \<open>generate_item_chunks\<close>: the line limit is computed before the loop, and its
  \<open>OverflowError\<close> ends the call. After the loop \<open>i + 1\<close> is \<open>len(self.items)\<close>: the final
  flush is reached only with a non-empty chunk, hence after at least one iteration.
\<close>

definition generate_item_chunks ::
  "CacheItem list \<Rightarrow> int \<Rightarrow> int \<Rightarrow> py_error + (CacheItem list list \<times> CacheItem list list)" where
  "generate_item_chunks items token_threshold plt =
     (case line_limit_of token_threshold of
        Inl e \<Rightarrow> Inl e
      | Inr line_limit \<Rightarrow>
          (case chunk_loop items line_limit token_threshold plt 0 items chunk_state_init of
             Inl e \<Rightarrow> Inl e
           | Inr st \<Rightarrow>
               if chunk st \<noteq> []
               then (case flush items (int (length items)) plt st of
                       Inl e \<Rightarrow> Inl e
                     | Inr st' \<Rightarrow> Inr (chunks st', preceding_chunks st'))
               else Inr (chunks st, preceding_chunks st)))"

text \<open>The items a round has to translate, in list order.\<close>

definition untranslated :: "CacheItem list \<Rightarrow> CacheItem list" where
  "untranslated items = filter (\<lambda>item. status item = UNTRANSLATED) items"

text \<open>
  The bound a chunk of more than one item has to respect: cumulative non-empty-line count
  and cumulative token count.
\<close>

definition within_bounds :: "int \<Rightarrow> int \<Rightarrow> CacheItem list \<Rightarrow> bool" where
  "within_bounds line_limit token_threshold c =
     (1 < length c \<longrightarrow>
        (\<Sum>item\<leftarrow>c. current_line_length item) \<le> line_limit
        \<and> (\<Sum>item\<leftarrow>c. token_count item) \<le> token_threshold)"

text \<open>What \<open>generate_preceding_chunks\<close> requires of an item before appending it.\<close>

definition preceding_item_ok :: "CacheItem list \<Rightarrow> CacheItem \<Rightarrow> bool" where
  "preceding_item_ok ch x =
     (status x \<noteq> EXCLUDED \<and> strip (src x) \<noteq> [] \<and> file_path x = file_path (last ch)
      \<and> endswith (strip (src x)) END_LINE_PUNCTUATION)"

text \<open>
  The code points of the marks in \<open>END_LINE_PUNCTUATION\<close>, and the relation between a
  preceding chunk \<open>p\<close> and its chunk \<open>c\<close>.
\<close>

definition terminal_marks :: "nat set" where
  "terminal_marks = {46, 12290, 63, 65311, 33, 65281, 8230, 39, 34, 8217, 8221, 12301, 12303}"

definition aligned :: "CacheItem list \<Rightarrow> int \<Rightarrow> CacheItem list \<Rightarrow> CacheItem list \<Rightarrow> bool" where
  "aligned items plt p c =
     (int (length p) \<le> max 0 plt \<and> subseq p items \<and>
      (\<forall>x\<in>set p. status x \<noteq> EXCLUDED \<and> strip (src x) \<noteq> []
          \<and> (\<forall>y\<in>set c. file_path x = file_path y)
          \<and> last (strip (src x)) \<in> terminal_marks))"

text \<open>Concrete items for the scenarios evaluated below.\<close>

definition example_item :: "pystr \<Rightarrow> pystr \<Rightarrow> translation_status \<Rightarrow> int \<Rightarrow> CacheItem" where
  "example_item s fp stat n =
     \<lparr>src = s, dst = [], status = stat, file_path = fp, file_type = OTHER_FILE_TYPE [],
      token_count = n, retry_count = 0, skip_internal_filter = False, row = 0\<rparr>"

definition item_a :: CacheItem where "item_a = example_item [65, 46] [102, 49] TRANSLATED 10"
definition item_b :: CacheItem where "item_b = example_item [66, 46] [102, 49] UNTRANSLATED 60"
definition item_c :: CacheItem where "item_c = example_item [67, 46] [102, 49] UNTRANSLATED 30"
definition item_d :: CacheItem where "item_d = example_item [68] [102, 49] UNTRANSLATED 30"
definition item_e :: CacheItem where "item_e = example_item [69] [102, 50] UNTRANSLATED 10"

text \<open>Nine non-empty lines and 200 tokens in one item.\<close>

definition item_big :: CacheItem where
  "item_big = example_item [97, 10, 97, 10, 97, 10, 97, 10, 97, 10, 97, 10, 97, 10, 97, 10, 97]
     [102, 49] UNTRANSLATED 200"

text \<open>A one-line item without tokens, for a chunk of very many lines.\<close>

definition item_line :: CacheItem where
  "item_line = example_item [97] [102, 49] UNTRANSLATED 0"

section \<open>Translator: filters and MTool passes\<close>

text \<open>
  Modelled from the spec: \<open>BaseLanguage.Enum\<close> (\<open>base/BaseLanguage.py\<close>), the language tags
  of the configuration; the code under study names \<open>JA\<close>, \<open>KO\<close> and \<open>ZH\<close>.
\<close>

datatype language = ZH | EN | JA | KO | OTHER_LANGUAGE pystr

text \<open>
  \<open>item.set_status(Base.TranslationStatus.EXCLUDED)\<close> on the object at position \<open>i\<close> of
  the list: the list is the store, its positions stand for the item objects.
\<close>

definition set_status_at :: "nat \<Rightarrow> CacheItem list \<Rightarrow> CacheItem list" where
  "set_status_at i items = items[i := (items ! i)\<lparr>status := EXCLUDED\<rparr>]"

text \<open>
  \<open>rule_filter\<close>: \<open>target\<close> collects the items for which
  \<open>RuleFilter.filter(v.get_src(), v.get_skip_internal_filter())\<close> holds, then the loop
  marks each of them. The filter itself is an external collaborator and a parameter here.
  The counts before and after only feed the log line.
\<close>

definition rule_filter :: "(pystr \<Rightarrow> bool \<Rightarrow> bool) \<Rightarrow> CacheItem list \<Rightarrow> CacheItem list" where
  "rule_filter RuleFilter_filter items =
     (if length items = 0 then items
      else let target = filter (\<lambda>i. RuleFilter_filter (src (items ! i))
                                     (skip_internal_filter (items ! i)) = True)
                          [0 ..< length items]
           in fold set_status_at target items)"

text \<open>\<open>language_filter\<close>, with \<open>LanguageFilter.filter\<close> and \<open>config.source_language\<close>.\<close>

definition language_filter ::
  "(pystr \<Rightarrow> language \<Rightarrow> bool) \<Rightarrow> language \<Rightarrow> CacheItem list \<Rightarrow> CacheItem list" where
  "language_filter LanguageFilter_filter source_language items =
     (if length items = 0 then items
      else let target = filter (\<lambda>i. LanguageFilter_filter (src (items ! i)) source_language = True)
                          [0 ..< length items]
           in fold set_status_at target items)"

text \<open>\<open>itertools.zip_longest(xs, ys, fillvalue = f)\<close>.\<close>

fun zip_longest :: "'a list \<Rightarrow> 'a list \<Rightarrow> 'a \<Rightarrow> ('a \<times> 'a) list" where
  "zip_longest [] [] f = []"
| "zip_longest (x # xs) [] f = (x, f) # zip_longest xs [] f"
| "zip_longest [] (y # ys) f = (f, y) # zip_longest [] ys f"
| "zip_longest (x # xs) (y # ys) f = (x, y) # zip_longest xs ys f"

text \<open>
  \<open>group_by_file_path.setdefault(item.get_file_path(), []).append(item)\<close> on a dict kept as
  an association list in insertion order.
\<close>

fun setdefault_append ::
  "(pystr \<times> CacheItem list) list \<Rightarrow> pystr \<Rightarrow> CacheItem \<Rightarrow> (pystr \<times> CacheItem list) list" where
  "setdefault_append [] k v = [(k, [v])]"
| "setdefault_append ((k', l) # g) k v =
     (if k' = k then (k', l @ [v]) # g else (k', l) # setdefault_append g k v)"

definition group_by_file_path :: "CacheItem list \<Rightarrow> (pystr \<times> CacheItem list) list" where
  "group_by_file_path items_kvjson =
     fold (\<lambda>item g. setdefault_append g (file_path item) item) items_kvjson []"

text \<open>
  The body of the innermost loop of \<open>mtool_optimizer_postprocess\<close>: a copy of the parent
  with the stripped line pair and the group size as \<open>row\<close>.
\<close>

definition item_ex :: "CacheItem \<Rightarrow> nat \<Rightarrow> pystr \<times> pystr \<Rightarrow> CacheItem" where
  "item_ex item n p = item\<lparr>src := strip (fst p), dst := strip (snd p), row := int n\<rparr>"

text \<open>\<open>src.count("\n") > 0\<close>.\<close>

definition multi_line :: "CacheItem \<Rightarrow> bool" where
  "multi_line item = (count_list (src item) 10 > 0)"

definition postprocess_item :: "nat \<Rightarrow> CacheItem \<Rightarrow> CacheItem list \<Rightarrow> CacheItem list" where
  "postprocess_item n item items =
     (if multi_line item
      then fold (\<lambda>p acc. acc @ [item_ex item n p])
             (zip_longest (splitlines (src item)) (splitlines (dst item)) []) items
      else items)"

definition mtool_optimizer_postprocess :: "bool \<Rightarrow> CacheItem list \<Rightarrow> CacheItem list" where
  "mtool_optimizer_postprocess mtool_optimizer_enable items =
     (if length items = 0 \<or> mtool_optimizer_enable = False then items
      else let items_kvjson = filter (\<lambda>item. file_type item = KVJSON) items;
               groups = group_by_file_path items_kvjson
           in fold (\<lambda>items_by_file_path acc.
                      fold (postprocess_item (length items_by_file_path)) items_by_file_path acc)
                (map snd groups) items)"

text \<open>
  The items \<open>mtool_optimizer_postprocess\<close> synthesises for one parent, given the whole list:
  one per zip-longest pair of its source and destination lines, with \<open>row\<close> the number of
  KVJSON items that share the parent's \<open>file_path\<close>.
\<close>

definition group_size :: "CacheItem list \<Rightarrow> CacheItem \<Rightarrow> nat" where
  "group_size items item =
     length (filter (\<lambda>x. file_type x = KVJSON \<and> file_path x = file_path item) items)"

definition line_items :: "CacheItem list \<Rightarrow> CacheItem \<Rightarrow> CacheItem list" where
  "line_items items item =
     map (item_ex item (group_size items item))
       (zip_longest (splitlines (src item)) (splitlines (dst item)) [])"

text \<open>What one parent contributes when the group has \<open>n\<close> members.\<close>

definition new_items :: "nat \<Rightarrow> CacheItem \<Rightarrow> CacheItem list" where
  "new_items n item =
     (if multi_line item
      then map (item_ex item n) (zip_longest (splitlines (src item)) (splitlines (dst item)) [])
      else [])"

text \<open>
  The dict built by \<open>setdefault\<close> from the list \<open>xs\<close>: distinct keys, one per
  \<open>file_path\<close> that occurs, each holding the items of that \<open>file_path\<close> in list order.
\<close>

definition grouped :: "(pystr \<times> CacheItem list) list \<Rightarrow> CacheItem list \<Rightarrow> bool" where
  "grouped g xs =
     (distinct (map fst g) \<and> fst ` set g = file_path ` set xs \<and>
      (\<forall>(k, l)\<in>set g. l = filter (\<lambda>x. file_path x = k) xs))"

text \<open>A KVJSON item for the scenarios: a source of two lines and a destination of one.\<close>

definition kv_item :: "pystr \<Rightarrow> pystr \<Rightarrow> pystr \<Rightarrow> translation_status \<Rightarrow> CacheItem" where
  "kv_item s d fp stat =
     \<lparr>src = s, dst = d, status = stat, file_path = fp, file_type = KVJSON,
      token_count = 1, retry_count = 0, skip_internal_filter = False, row = 7\<rparr>"

definition kv_two :: CacheItem where
  "kv_two = kv_item [97, 10, 32, 98] [120] [102] TRANSLATED"

definition kv_one :: CacheItem where
  "kv_one = kv_item [99] [121] [102] TRANSLATED"

text \<open>Filters for the scenarios: one source text each.\<close>

definition example_rule_filter :: "pystr \<Rightarrow> bool \<Rightarrow> bool" where
  "example_rule_filter s skip_internal = (s = [65, 46])"

definition example_language_filter :: "pystr \<Rightarrow> language \<Rightarrow> bool" where
  "example_language_filter s lang = (lang = JA \<and> s = [66, 46])"

section \<open>Translator: progress bookkeeping and the round loop\<close>

text \<open>
  The numbers kept in \<open>extras\<close> and in a task's usage summary: Python ints, and floats for
  the two time stamps. The float payload is a type parameter, and every float operation is
  a parameter of the function that performs it, so that nothing is assumed about rounding.
\<close>

datatype 'f pynum = PyInt int | PyFloat 'f

text \<open>A dict with string keys, in insertion order; \<open>d.get(k, dflt)\<close> and \<open>d[k] = v\<close>.\<close>

type_synonym 'f dict = "(string \<times> 'f pynum) list"




text \<open>
  Modelled from the spec: \<open>CacheProject\<close> (\<open>module/Cache/CacheProject.py\<close>) holds the project
  status and the \<open>extras\<close> mapping.
\<close>

record 'f CacheProject =
  cp_status :: translation_status
  cp_extras :: "'f dict"

text \<open>\<open>Base.TaskStatus\<close>, the value of the global \<open>Base.WORK_STATUS\<close>.\<close>

datatype task_status = TASK_IDLE | TASK_TRANSLATING | TASK_STOPPING

text \<open>The events the translator emits, with the payload where one is read later.\<close>

datatype 'f event =
  TRANSLATION_UPDATE "'f dict" | TRANSLATION_STOP_DONE | APP_TOAST_SHOW | GLOSSARY_REFRESH

text \<open>The fields of \<open>Config\<close> the translator reads.\<close>

record config =
  source_language :: language
  target_language :: language
  mtool_optimizer_enable :: bool
  glossary_enable :: bool
  auto_glossary_enable :: bool
  max_round :: int
  token_threshold :: int
  preceding_lines_threshold :: int

text \<open>
  The state a \<open>Translator\<close> works on: its own attributes, the items and the project of its
  \<open>CacheManager\<close>, the manager's save request flag, the global \<open>WORK_STATUS\<close>, the events
  emitted so far and the item lists handed to \<open>FileManager.write_to_path\<close> so far.
\<close>

record 'f translator =
  translating :: bool
  WORK_STATUS :: task_status
  cfg :: config
  extras :: "'f dict"
  cm_items :: "CacheItem list"
  cm_project :: "'f CacheProject"
  save_to_file_require_flag :: bool
  emitted :: "'f event list"
  written :: "CacheItem list list"






text \<open>
  What lies outside the translator: the filters, the configuration file, the cache files
  (\<open>None\<close>: the file is absent or unreadable, which \<open>load_from_file\<close> tolerates), the input
  files (\<open>None\<close>: reading raises), the clock, and \<open>run_round\<close>, the effect on the state of
  one round's worker pool from the first \<open>submit\<close> until the pool is joined: the tasks'
  writes to the items, the calls of \<open>task_done_callback\<close>, and a stop request that sets
  \<open>WORK_STATUS\<close> in the meantime.
\<close>

record 'f world =
  RuleFilter_filter :: "pystr \<Rightarrow> bool \<Rightarrow> bool"
  LanguageFilter_filter :: "pystr \<Rightarrow> language \<Rightarrow> bool"
  Config_load :: config
  cache_items :: "CacheItem list option"
  cache_project :: "'f CacheProject option"
  read_from_path :: "('f CacheProject \<times> CacheItem list) option"
  clock :: "'f pynum"
  clock_minus :: "'f pynum \<Rightarrow> 'f pynum"
  run_round :: "nat \<Rightarrow> CacheItem list list \<Rightarrow> CacheItem list list \<Rightarrow> 'f translator \<Rightarrow> 'f translator"
























section \<open>ResponseChecker\<close>

text \<open>\<open>ResponseChecker.Error\<close>.\<close>

datatype error_code =
  NONE | UNKNOWN | FAIL_DATA | FAIL_LINE_COUNT | LINE_ERROR_KANA | LINE_ERROR_HANGEUL
  | LINE_ERROR_FAKE_REPLY | LINE_ERROR_EMPTY_LINE | LINE_ERROR_SIMILARITY
  | LINE_ERROR_DEGRADATION

text \<open>\<open>sub in s\<close> on strings: \<open>sub\<close> occurs in \<open>s\<close> as a contiguous run.\<close>

fun starts_with :: "pystr \<Rightarrow> pystr \<Rightarrow> bool" where
  "starts_with s [] = True"
| "starts_with [] (c # sub) = False"
| "starts_with (a # s) (c # sub) = (a = c \<and> starts_with s sub)"

fun is_substring :: "pystr \<Rightarrow> pystr \<Rightarrow> bool" where
  "is_substring sub [] = (sub = [])"
| "is_substring sub (a # s) = (starts_with (a # s) sub \<or> is_substring sub s)"

text \<open>
  What the checker calls outside \<open>ResponseChecker.py\<close>: the placeholder of
  \<open>TextPreserver\<close>, the two filters, \<open>RE_DEGRADATION.search(s) != None\<close> of the \<open>re\<close> module,
  the script tests of \<open>TextHelper\<close>, and \<open>jaccard_above s d\<close> for
  \<open>TextHelper.check_similarity_by_jaccard(s, d) > 0.80\<close>.
\<close>

record checker_world =
  PLACEHOLDER :: pystr
  RuleFilter_match :: "pystr \<Rightarrow> bool \<Rightarrow> bool"
  LanguageFilter_match :: "pystr \<Rightarrow> language \<Rightarrow> bool"
  RE_DEGRADATION_search :: "pystr \<Rightarrow> bool"
  any_hiragana :: "pystr \<Rightarrow> bool"
  any_katakana :: "pystr \<Rightarrow> bool"
  any_hangeul :: "pystr \<Rightarrow> bool"
  jaccard_above :: "pystr \<Rightarrow> pystr \<Rightarrow> bool"

text \<open>
  The attributes of a \<open>ResponseChecker\<close>: the items it was constructed with and the two
  languages of its configuration.
\<close>

record checker =
  self_items :: "CacheItem list"
  self_source_language :: language
  self_target_language :: language

text \<open>
  The last operand of \<open>x > 0.80 == True\<close>. Python chains comparisons: the expression is
  \<open>x > 0.80 and 0.80 == True\<close>, and \<open>True\<close> compares as the number one. \<open>0.80\<close> is written
  here as the fraction \<open>80 / 100\<close>.
\<close>

definition literal_080_equals_True :: bool where
  "literal_080_equals_True = ((80::int) = 100 * (if True then 1 else 0))"

text \<open>
  The body of the loop of \<open>check_lines\<close> for one line. A destination that is \<open>None\<close> has
  no \<open>strip\<close>: \<open>AttributeError\<close>.
\<close>

definition check_line ::
  "checker_world \<Rightarrow> checker \<Rightarrow> language \<Rightarrow> pystr \<Rightarrow> pystr option \<Rightarrow> CacheItem
   \<Rightarrow> py_error + error_code" where
  "check_line w self source_lang src0 dst0 item =
     (case dst0 of
        None \<Rightarrow> Inl AttributeError
      | Some dst1 \<Rightarrow>
          let s = strip src0; d = strip dst1 in
          if s \<noteq> [] \<and> d = [] then Inr LINE_ERROR_EMPTY_LINE
          else if is_substring (PLACEHOLDER w) s then Inr NONE
          else if RuleFilter_match w s (skip_internal_filter item) = True then Inr NONE
          else if LanguageFilter_match w s source_lang = True then Inr NONE
          else if \<not> RE_DEGRADATION_search w s \<and> RE_DEGRADATION_search w d
               then Inr LINE_ERROR_DEGRADATION
          else if source_lang = JA \<and> (any_hiragana w d \<or> any_katakana w d)
               then Inr LINE_ERROR_KANA
          else if source_lang = KO \<and> any_hangeul w d then Inr LINE_ERROR_HANGEUL
          else if is_substring s d \<or> is_substring d s
                  \<or> (jaccard_above w s d \<and> literal_080_equals_True)
               then (if self_source_language self = JA \<and> self_target_language self = ZH
                     then (if any_hiragana w d \<or> any_katakana w d
                           then Inr LINE_ERROR_SIMILARITY else Inr NONE)
                     else if self_source_language self = KO \<and> self_target_language self = ZH
                     then (if any_hangeul w d then Inr LINE_ERROR_SIMILARITY else Inr NONE)
                     else Inr LINE_ERROR_SIMILARITY)
          else Inr NONE)"

text \<open>
  \<open>check_lines\<close>: the loop over \<open>zip(src_dict.values(), dst_dict.values(),
  item_dict.values())\<close>, ended by the first exception. The dicts are association lists in
  insertion order.
\<close>

fun check_lines_from ::
  "checker_world \<Rightarrow> checker \<Rightarrow> language \<Rightarrow> (pystr \<times> pystr option \<times> CacheItem) list
   \<Rightarrow> error_code list \<Rightarrow> py_error + error_code list" where
  "check_lines_from w self source_lang [] check_result = Inr check_result"
| "check_lines_from w self source_lang ((s, d, item) # rest) check_result =
     (case check_line w self source_lang s d item of
        Inl e \<Rightarrow> Inl e
      | Inr code \<Rightarrow> check_lines_from w self source_lang rest (check_result @ [code]))"

definition check_lines ::
  "checker_world \<Rightarrow> checker \<Rightarrow> (pystr \<times> pystr) list \<Rightarrow> (pystr \<times> pystr option) list
   \<Rightarrow> (pystr \<times> CacheItem) list \<Rightarrow> language \<Rightarrow> py_error + error_code list" where
  "check_lines w self src_dict dst_dict item_dict source_lang =
     check_lines_from w self source_lang
       (zip (map snd src_dict) (zip (map snd dst_dict) (map snd item_dict))) []"

text \<open>\<open>ResponseChecker.RETRY_COUNT_THRESHOLD\<close>.\<close>

definition RETRY_COUNT_THRESHOLD :: int where
  "RETRY_COUNT_THRESHOLD = 2"

text \<open>\<open>check\<close>. \<open>self.items[0]\<close> is read only when the list has exactly one element.\<close>

definition check ::
  "checker_world \<Rightarrow> checker \<Rightarrow> (pystr \<times> pystr) list \<Rightarrow> (pystr \<times> pystr option) list
   \<Rightarrow> (pystr \<times> CacheItem) list \<Rightarrow> language \<Rightarrow> py_error + error_code list" where
  "check w self src_dict dst_dict item_dict source_lang =
     (if length dst_dict = 0 \<or> list_all (\<lambda>v. v = Some [] \<or> v = None) (map snd dst_dict)
      then Inr (replicate (length src_dict) FAIL_DATA)
      else if length (self_items self) = 1
              \<and> retry_count (self_items self ! 0) \<ge> RETRY_COUNT_THRESHOLD
      then Inr (replicate (length src_dict) NONE)
      else if length src_dict \<noteq> length dst_dict
      then Inr (replicate (length src_dict) FAIL_LINE_COUNT)
      else (case check_lines w self src_dict dst_dict item_dict source_lang of
              Inl e \<Rightarrow> Inl e
            | Inr error \<Rightarrow>
                if list_ex (\<lambda>v. v \<noteq> NONE) error then Inr error
                else Inr (replicate (length src_dict) NONE)))"

text \<open>
  Modelled from the spec: \<open>TextHelper.check_similarity_by_jaccard\<close> lies outside the files
  under study; the spec names it the Jaccard similarity of the two texts. Taken over their
  character sets it is the number of shared characters over the number of characters in
  either text. It serves only to fix a concrete \<open>jaccard_above\<close> for the scenarios.
\<close>

definition character_jaccard_above_080 :: "pystr \<Rightarrow> pystr \<Rightarrow> bool" where
  "character_jaccard_above_080 s d =
     (let shared = length (filter (\<lambda>c. c \<in> set d) (remdups s));
          either = length (remdups (s @ d))
      in 0 < either \<and> 80 * either < 100 * shared)"

text \<open>
  A checker world for the scenarios: the placeholder is one private-use character, no
  filter matches, nothing counts as degraded, and no text holds kana or hangeul.
\<close>

definition plain_world :: checker_world where
  "plain_world =
     \<lparr>PLACEHOLDER = [57344], RuleFilter_match = (\<lambda>s skip_internal. False),
      LanguageFilter_match = (\<lambda>s lang. False), RE_DEGRADATION_search = (\<lambda>s. False),
      any_hiragana = (\<lambda>s. False), any_katakana = (\<lambda>s. False), any_hangeul = (\<lambda>s. False),
      jaccard_above = character_jaccard_above_080\<rparr>"

text \<open>\<open>"hello world"\<close> and \<open>"world hello"\<close>.\<close>

definition hello_world :: pystr where
  "hello_world = [104, 101, 108, 108, 111, 32, 119, 111, 114, 108, 100]"

definition world_hello :: pystr where
  "world_hello = [119, 111, 114, 108, 100, 32, 104, 101, 108, 108, 111]"

definition english_checker :: checker where
  "english_checker =
     \<lparr>self_items = [item_b, item_c], self_source_language = EN, self_target_language = ZH\<rparr>"

definition retried_item :: CacheItem where
  "retried_item = item_b\<lparr>retry_count := 2\<rparr>"

definition retry_checker :: checker where
  "retry_checker =
     \<lparr>self_items = [retried_item], self_source_language = EN, self_target_language = ZH\<rparr>"

section \<open>The float quotient: proofs\<close>

declare bitlen.simps [simp del]

lemma bitlen_le_iff: "bitlen n \<le> k \<longleftrightarrow> n < 2 ^ k"
proof (induction n arbitrary: k rule: bitlen.induct)
  case (1 n)
  show ?case
  proof (cases "n = 0")
    case True
    then show ?thesis by (simp add: bitlen.simps)
  next
    case False
    show ?thesis
    proof (cases k)
      case 0
      with False show ?thesis by (simp add: bitlen.simps)
    next
      case (Suc j)
      have "bitlen n \<le> Suc j \<longleftrightarrow> bitlen (n div 2) \<le> j"
        using False by (subst bitlen.simps) simp
      also have "\<dots> \<longleftrightarrow> n div 2 < 2 ^ j" using 1[OF False] .
      also have "\<dots> \<longleftrightarrow> n < 2 ^ Suc j" by (simp add: div_less_iff_less_mult mult.commute)
      finally show ?thesis using Suc by simp
    qed
  qed
qed

lemma bitlen_eqI: "2 ^ k \<le> n \<Longrightarrow> n < 2 ^ Suc k \<Longrightarrow> bitlen n = Suc k"
proof -
  assume a: "2 ^ k \<le> n" "n < 2 ^ Suc k"
  from a(2) have "bitlen n \<le> Suc k" by (simp only: bitlen_le_iff)
  moreover from a(1) have "\<not> bitlen n \<le> k" by (simp only: bitlen_le_iff not_less)
  ultimately show ?thesis by simp
qed

lemma round_half_even_exact: "0 < d \<Longrightarrow> round_half_even (m * d) d = m"
  by (simp add: round_half_even_def)

lemma int_of_quotient_16_small:
  assumes "n < 2 ^ 53"
  shows "int_of_quotient n 16 = Inr (n div 16)"
proof (cases "n < 16")
  case True
  then show ?thesis by (simp add: int_of_quotient_def)
next
  case False
  define k where "k = bitlen (n div 16)"
  from assms have "n div 16 < 2 ^ 49" by simp
  then have k: "k \<le> 49" unfolding k_def by (simp only: bitlen_le_iff)
  define j where "j = 49 - k"
  have e: "53 - k = j + 4" using k by (simp add: j_def)
  have "n * 2 ^ (53 - k) = (n * 2 ^ j) * 16" by (simp add: e power_add)
  then have r: "round_half_even (n * 2 ^ (53 - k)) 16 = n * 2 ^ j"
    by (simp only: round_half_even_exact[of 16])
  have "(n * 2 ^ j) div 2 ^ (53 - k) = (n * 2 ^ j) div (16 * 2 ^ j)"
    by (simp add: e power_add)
  also have "\<dots> = n div 16" by simp
  finally have "round_half_even (n * 2 ^ (53 - k)) 16 div 2 ^ (53 - k) = n div 16"
    by (simp only: r)
  with False k show ?thesis
    by (simp add: int_of_quotient_def Let_def k_def[symmetric])
qed

lemma line_limit_of_small:
  assumes "\<bar>t\<bar> < 2 ^ 53"
  shows "line_limit_of t = Inr (max 8 (t div 16))"
proof -
  have n: "nat \<bar>t\<bar> < 2 ^ 53" using assms by (simp add: nat_less_iff)
  have q: "int_of_quotient (nat \<bar>t\<bar>) 16 = Inr (nat \<bar>t\<bar> div 16)"
    by (rule int_of_quotient_16_small[OF n])
  show ?thesis
  proof (cases "t < 0")
    case True
    then have "t div 16 < 0" by simp
    with True q show ?thesis by (simp add: line_limit_of_def py_int_truediv_def max_def)
  next
    case False
    then have "int (nat \<bar>t\<bar> div 16) = t div 16" by (simp add: zdiv_int)
    with False q show ?thesis by (simp add: line_limit_of_def py_int_truediv_def)
  qed
qed

lemma int_of_quotient_rounds:
  "int_of_quotient 144115188075855920 16 = Inr 9007199254740996"
proof -
  have d16: "(144115188075855920::nat) div 16 = 9007199254740995" by simp
  have b: "bitlen 9007199254740995 = Suc 53"
    by (rule bitlen_eqI) simp_all
  have n16: "\<not> (144115188075855920::nat) < 16" by simp
  have k: "\<not> Suc 53 < (53::nat)" by simp
  have e: "(16::nat) * 2 = 32" by simp
  have e': "(2::nat) ^ (Suc 53 - 53) = 2" by simp
  have r: "round_half_even 144115188075855920 32 = 4503599627370498"
    by (simp add: round_half_even_def Let_def)
  have v: "(4503599627370498::nat) * 2 = 9007199254740996" by simp
  have "(9007199254740996::nat) < 2 ^ 54" by simp
  also have "(2::nat) ^ 54 \<le> 2 ^ 1024" by (rule power_increasing) simp_all
  finally have small: "\<not> (2::nat) ^ 1024 \<le> 9007199254740996" by (simp only: not_le)
  show ?thesis
    unfolding int_of_quotient_def Let_def d16 b
    by (simp only: n16 k e e' r v small if_False)
qed

lemma line_limit_of_rounds:
  "line_limit_of 144115188075855920 = Inr 9007199254740996"
proof -
  have "nat \<bar>144115188075855920::int\<bar> = 144115188075855920" by simp
  then show ?thesis
    by (simp add: line_limit_of_def py_int_truediv_def int_of_quotient_rounds)
qed

lemma round_half_even_ge: "n div d \<le> round_half_even n d"
  by (simp add: round_half_even_def Let_def)

lemma int_of_quotient_16_overflow:
  assumes "2 ^ 1028 \<le> n"
  shows "int_of_quotient n 16 = Inl OverflowError"
proof -
  define k where "k = bitlen (n div 16)"
  define g :: nat where "g = 2 ^ (k - 53)"
  have "(2::nat) ^ 1028 = 2 ^ 1024 * 2 ^ 4" by (simp only: power_add [symmetric]) simp
  then have "(2::nat) ^ 1024 = 2 ^ 1028 div 16" by simp
  also have "\<dots> \<le> n div 16" using assms by (rule div_le_mono)
  finally have q16: "(2::nat) ^ 1024 \<le> n div 16" .
  then have "\<not> n div 16 < 2 ^ 1024" by (simp only: not_less)
  then have "\<not> k \<le> 1024" unfolding k_def bitlen_le_iff .
  then have k: "1025 \<le> k" by simp
  have "\<not> k \<le> k - 1" using k by simp
  then have "\<not> n div 16 < 2 ^ (k - 1)" unfolding k_def bitlen_le_iff .
  then have lower: "2 ^ (k - 1) \<le> n div 16" by (simp only: not_less)
  have "k - 1 = 52 + (k - 53)" using k by simp
  then have split: "(2::nat) ^ (k - 1) = 2 ^ 52 * g" by (simp only: g_def power_add)
  have gpos: "0 < g" by (simp add: g_def)
  have "(2::nat) ^ 52 = (2 ^ 52 * g) div g" using gpos by simp
  also have "\<dots> \<le> (n div 16) div g" using lower unfolding split by (rule div_le_mono)
  also have "\<dots> = n div (16 * g)" by (simp only: div_mult2_eq)
  also have "\<dots> \<le> round_half_even n (16 * g)" by (rule round_half_even_ge)
  finally have "(2::nat) ^ 52 * g \<le> round_half_even n (16 * g) * g" by (rule mult_le_mono1)
  moreover have "(2::nat) ^ 1024 \<le> 2 ^ (k - 1)" using k by (intro power_increasing) simp_all
  ultimately have v: "(2::nat) ^ 1024 \<le> round_half_even n (16 * g) * g"
    unfolding split by (rule order_trans[rotated])
  have "(16::nat) \<le> 2 ^ 1028" by (rule order_trans[of _ "2 ^ 4"]) (simp, rule power_increasing, simp_all)
  with assms have n16: "\<not> n < 16" by simp
  have k53: "\<not> k < 53" using k by simp
  show ?thesis
    unfolding int_of_quotient_def Let_def k_def[symmetric] g_def[symmetric]
    using n16 k53 v by (simp only: if_False if_True)
qed

lemma line_limit_of_overflow:
  assumes "2 ^ 1028 \<le> \<bar>t\<bar>"
  shows "line_limit_of t = Inl OverflowError"
proof -
  have "(2::nat) ^ 1028 \<le> nat \<bar>t\<bar>" using assms by (simp add: le_nat_iff)
  then have "int_of_quotient (nat \<bar>t\<bar>) 16 = Inl OverflowError"
    by (rule int_of_quotient_16_overflow)
  then show ?thesis by (simp add: line_limit_of_def py_int_truediv_def)
qed

lemma line_limit_of_error: "line_limit_of t = Inl e \<Longrightarrow> e = OverflowError"
  by (auto simp: line_limit_of_def py_int_truediv_def int_of_quotient_def Let_def
      split: sum.splits if_splits)

section \<open>Chunk planning: proofs\<close>

lemma preceding_walk_ok:
  "ch \<noteq> [] \<Longrightarrow> \<forall>i\<in>set is. i < length items \<Longrightarrow>
   \<exists>r. preceding_walk items ch plt is result = Inr r"
  by (induction "is" arbitrary: result) (auto simp: Let_def)

lemma range_down_bound: "n < int m \<Longrightarrow> \<forall>i\<in>set (range_down n). i < m"
  by (auto simp: range_down_def)

lemma generate_preceding_chunks_ok:
  assumes "ch \<noteq> []" "0 \<le> skp" "start \<le> int (length items)"
  shows "\<exists>p. generate_preceding_chunks items ch start skp plt = Inr p"
proof -
  have "start - skp - int (length ch) - 1 < int (length items)" using assms by simp
  from preceding_walk_ok[OF assms(1) range_down_bound[OF this]]
  obtain r where "preceding_walk items ch plt
     (range_down (start - skp - int (length ch) - 1)) [] = Inr r" by blast
  then show ?thesis by (simp add: generate_preceding_chunks_def)
qed

lemma drop_ConsD:
  assumes "x # xs = drop i ys"
  shows "i < length ys \<and> ys ! i = x \<and> xs = drop (Suc i) ys"
proof -
  have i: "i < length ys" using assms by (cases "i < length ys") auto
  from Cons_nth_drop_Suc[OF i] assms have "ys ! i # drop (Suc i) ys = x # xs" by simp
  then show ?thesis using i by simp
qed

lemma chunk_loop_rule:
  assumes I0: "I i st" and rest: "rest = drop i items" and "i \<le> length items"
    and nonneg: "\<And>i st. I i st \<Longrightarrow> 0 \<le> skip st"
    and skp: "\<And>i st. I i st \<Longrightarrow> i < length items \<Longrightarrow> status (items ! i) \<noteq> UNTRANSLATED
              \<Longrightarrow> I (Suc i) (st\<lparr>skip := skip st + 1\<rparr>)"
    and adm: "\<And>i st. I i st \<Longrightarrow> i < length items \<Longrightarrow> status (items ! i) = UNTRANSLATED
              \<Longrightarrow> chunk st = [] \<or> \<not> over_limit ll tt (items ! i) st
              \<Longrightarrow> I (Suc i) (admit (items ! i) st)"
    and fls: "\<And>i st p. I i st \<Longrightarrow> i < length items \<Longrightarrow> status (items ! i) = UNTRANSLATED
              \<Longrightarrow> chunk st \<noteq> [] \<Longrightarrow> over_limit ll tt (items ! i) st
              \<Longrightarrow> generate_preceding_chunks items (chunk st) (int i) (skip st) plt = Inr p
              \<Longrightarrow> I (Suc i) (admit (items ! i) (reset_chunk (flushed p st)))"
  shows "\<exists>st'. chunk_loop items ll tt plt i rest st = Inr st' \<and> I (length items) st'"
  using I0 rest \<open>i \<le> length items\<close>
proof (induction rest arbitrary: i st)
  case Nil
  then have "i = length items" by simp
  with Nil show ?case by simp
next
  case (Cons item rest)
  from Cons.prems have i: "i < length items" and it: "items ! i = item"
    and rest': "rest = drop (Suc i) items" and le: "Suc i \<le> length items"
    using drop_ConsD[of item rest i items] by auto
  show ?case
  proof (cases "status item \<noteq> UNTRANSLATED")
    case True
    from skp[OF Cons.prems(1) i] True it
    have "I (Suc i) (st\<lparr>skip := skip st + 1\<rparr>)" by simp
    from Cons.IH[OF this rest' le] True show ?thesis by simp
  next
    case un: False
    show ?thesis
    proof (cases "chunk st = [] \<or> \<not> over_limit ll tt item st")
      case True
      from adm[OF Cons.prems(1) i] un it True
      have "I (Suc i) (admit item st)" by simp
      from Cons.IH[OF this rest' le] un True show ?thesis
        by auto
    next
      case False
      then have ne: "chunk st \<noteq> []" and ov: "over_limit ll tt item st" by auto
      from generate_preceding_chunks_ok[OF ne nonneg[OF Cons.prems(1)], of "int i" items plt] i
      obtain p where p: "generate_preceding_chunks items (chunk st) (int i) (skip st) plt = Inr p"
        by auto
      from fls[OF Cons.prems(1) i _ ne _ p] un it ov
      have "I (Suc i) (admit item (reset_chunk (flushed p st)))" by simp
      from Cons.IH[OF this rest' le] un ne ov p show ?thesis
        by (auto simp: flush_def)
    qed
  qed
qed


lemma take_Suc_filter:
  "i < length xs \<Longrightarrow> filter P (take (Suc i) xs) = filter P (take i xs) @ (if P (xs ! i) then [xs ! i] else [])"
  by (simp add: take_Suc_conv_app_nth)

lemma chunk_loop_totality:
  "\<exists>st. chunk_loop items ll tt plt 0 items chunk_state_init = Inr st \<and> 0 \<le> skip st \<and>
        concat (chunks st) @ chunk st = untranslated items"
proof -
  let ?I = "\<lambda>i st. 0 \<le> skip st \<and> concat (chunks st) @ chunk st = untranslated (take i items)"
  have "\<exists>st'. chunk_loop items ll tt plt 0 items chunk_state_init = Inr st' \<and> ?I (length items) st'"
  proof (rule chunk_loop_rule[where I = ?I])
    show "?I 0 chunk_state_init" by (simp add: chunk_state_init_def untranslated_def)
  qed (auto simp: untranslated_def take_Suc_filter admit_def reset_chunk_def flushed_def)
  then show ?thesis by simp
qed

text \<open>Evaluation of the planner on concrete items unfolds these equations.\<close>

lemmas chunk_eval = generate_item_chunks_def chunk_state_init_def admit_def flush_def flushed_def
  reset_chunk_def over_limit_def generate_preceding_chunks_def range_down_def
  line_limit_of_small current_line_length_def splitlines_def strip_def
  py_isspace_def py_islinebreak_def endswith_def endswith1_def END_LINE_PUNCTUATION_def
  example_item_def item_a_def item_b_def item_c_def item_d_def item_e_def item_big_def Let_def

lemma example_chunks:
  "generate_item_chunks [item_a, item_b, item_c, item_d, item_e] 100 2
   = Inr ([[item_b, item_c], [item_d], [item_e]], [[], [item_b, item_c], []])"
  by (simp add: chunk_eval upt_rec)

lemma generate_item_chunks_raises:
  "line_limit_of tt = Inl e \<Longrightarrow> generate_item_chunks items tt plt = Inl OverflowError"
  using line_limit_of_error[of tt e] by (simp add: generate_item_chunks_def)

lemma chunk_totality_at:
  assumes "line_limit_of tt = Inr ll"
  shows "\<exists>cs ps. generate_item_chunks items tt plt = Inr (cs, ps) \<and>
     concat cs = filter (\<lambda>item. status item = UNTRANSLATED) items"
proof -
  obtain st where st: "chunk_loop items ll tt plt 0 items chunk_state_init = Inr st"
    and sk: "0 \<le> skip st" and cc: "concat (chunks st) @ chunk st = untranslated items"
    using chunk_loop_totality by blast
  show ?thesis
  proof (cases "chunk st = []")
    case True
    with st cc assms show ?thesis by (simp add: generate_item_chunks_def untranslated_def)
  next
    case False
    from generate_preceding_chunks_ok[OF False sk, of "int (length items)" items plt]
    obtain p where "generate_preceding_chunks items (chunk st) (int (length items)) (skip st) plt = Inr p"
      by auto
    with st cc False assms show ?thesis
      by (simp add: generate_item_chunks_def flush_def flushed_def untranslated_def)
  qed
qed

lemma generate_item_chunks_returns_iff:
  "(\<exists>cs ps. generate_item_chunks items tt plt = Inr (cs, ps)) \<longleftrightarrow> (\<exists>ll. line_limit_of tt = Inr ll)"
proof (cases "line_limit_of tt")
  case (Inl e)
  from generate_item_chunks_raises[OF Inl, of items plt] Inl show ?thesis by simp
next
  case (Inr ll)
  from chunk_totality_at[OF Inr, of items plt] Inr show ?thesis by auto
qed

lemma generate_item_chunks_raises_iff:
  "generate_item_chunks items tt plt = Inl OverflowError \<longleftrightarrow> line_limit_of tt = Inl OverflowError"
proof (cases "line_limit_of tt")
  case (Inl e)
  from generate_item_chunks_raises[OF Inl, of items plt] line_limit_of_error[OF Inl] Inl
  show ?thesis by simp
next
  case (Inr ll)
  from chunk_totality_at[OF Inr, of items plt] Inr show ?thesis by auto
qed

text \<open>
  Claim C2 (chunk totality). For every item list, every \<open>token_threshold\<close> and every
  \<open>preceding_lines_threshold\<close>: whenever \<open>generate_item_chunks\<close> returns chunks, their
  concatenation is, element for element and in the original order, the subsequence of the
  items whose status is \<open>UNTRANSLATED\<close>. The call returns exactly when the float quotient
  \<open>token_threshold / 16\<close> exists, and raises \<open>OverflowError\<close> otherwise: it returns for every
  threshold below \<open>2 ^ 53\<close> in absolute value and raises from \<open>2 ^ 1028\<close> on.
\<close>

theorem chunk_totality:
  "(\<forall>cs ps. generate_item_chunks items tt plt = Inr (cs, ps) \<longrightarrow>
      concat cs = filter (\<lambda>item. status item = UNTRANSLATED) items) \<and>
   ((\<exists>cs ps. generate_item_chunks items tt plt = Inr (cs, ps)) \<longleftrightarrow>
      (\<exists>ll. line_limit_of tt = Inr ll)) \<and>
   (generate_item_chunks items tt plt = Inl OverflowError \<longleftrightarrow>
      line_limit_of tt = Inl OverflowError) \<and>
   (\<bar>tt\<bar> < 2 ^ 53 \<longrightarrow> (\<exists>cs ps. generate_item_chunks items tt plt = Inr (cs, ps))) \<and>
   (2 ^ 1028 \<le> \<bar>tt\<bar> \<longrightarrow> generate_item_chunks items tt plt = Inl OverflowError)"
proof (intro conjI allI impI)
  fix cs ps assume g: "generate_item_chunks items tt plt = Inr (cs, ps)"
  then obtain ll where "line_limit_of tt = Inr ll"
    using generate_item_chunks_returns_iff[of items tt plt] by blast
  from chunk_totality_at[OF this, of items plt] g
  show "concat cs = filter (\<lambda>item. status item = UNTRANSLATED) items" by simp
next
  show "(\<exists>cs ps. generate_item_chunks items tt plt = Inr (cs, ps)) \<longleftrightarrow>
      (\<exists>ll. line_limit_of tt = Inr ll)" by (rule generate_item_chunks_returns_iff)
next
  show "generate_item_chunks items tt plt = Inl OverflowError \<longleftrightarrow>
      line_limit_of tt = Inl OverflowError" by (rule generate_item_chunks_raises_iff)
next
  assume "\<bar>tt\<bar> < 2 ^ 53"
  then have "line_limit_of tt = Inr (max 8 (tt div 16))" by (rule line_limit_of_small)
  then show "\<exists>cs ps. generate_item_chunks items tt plt = Inr (cs, ps)"
    using generate_item_chunks_returns_iff[of items tt plt] by blast
next
  assume "2 ^ 1028 \<le> \<bar>tt\<bar>"
  then have "line_limit_of tt = Inl OverflowError" by (rule line_limit_of_overflow)
  then show "generate_item_chunks items tt plt = Inl OverflowError"
    by (rule generate_item_chunks_raises)
qed

theorem chunk_totality_witness:
  "generate_item_chunks [item_a, item_b, item_c, item_d, item_e] 100 2
     = Inr ([[item_b, item_c], [item_d], [item_e]], [[], [item_b, item_c], []]) \<and>
   concat [[item_b, item_c], [item_d], [item_e]]
     = filter (\<lambda>item. status item = UNTRANSLATED) [item_a, item_b, item_c, item_d, item_e] \<and>
   \<bar>100 :: int\<bar> < 2 ^ 53 \<and> line_limit_of 100 = Inr 8 \<and>
   (2::int) ^ 1028 \<le> \<bar>2 ^ 1028\<bar> \<and>
   generate_item_chunks [item_a, item_b, item_c, item_d, item_e] (2 ^ 1028) 2 = Inl OverflowError"
proof -
  have "(2::int) ^ 1028 \<le> \<bar>2 ^ 1028\<bar>" by simp
  moreover from this have "generate_item_chunks [item_a, item_b, item_c, item_d, item_e] (2 ^ 1028) 2
      = Inl OverflowError"
    using chunk_totality [of "[item_a, item_b, item_c, item_d, item_e]" "2 ^ 1028" 2] by blast
  moreover have "line_limit_of 100 = Inr 8" by (simp add: line_limit_of_small)
  ultimately show ?thesis
    using chunk_totality [of "[item_a, item_b, item_c, item_d, item_e]" 100 2] example_chunks
    by simp
qed

lemma chunk_loop_bounds:
  "\<exists>st. chunk_loop items ll tt plt 0 items chunk_state_init = Inr st \<and> 0 \<le> skip st \<and>
        (\<forall>c\<in>set (chunks st). within_bounds ll tt c) \<and> within_bounds ll tt (chunk st)"
proof -
  let ?I = "\<lambda>(i::nat) st. 0 \<le> skip st
      \<and> line_length st = (\<Sum>item\<leftarrow>chunk st. current_line_length item)
      \<and> token_length st = (\<Sum>item\<leftarrow>chunk st. token_count item)
      \<and> (\<forall>c\<in>set (chunks st). within_bounds ll tt c) \<and> within_bounds ll tt (chunk st)"
  have "\<exists>st'. chunk_loop items ll tt plt 0 items chunk_state_init = Inr st' \<and> ?I (length items) st'"
  proof (rule chunk_loop_rule[where I = ?I])
    show "?I 0 chunk_state_init" by (simp add: chunk_state_init_def within_bounds_def)
  next
    fix i and st :: chunk_state assume "?I i st" "chunk st = [] \<or> \<not> over_limit ll tt (items ! i) st"
    then show "?I (Suc i) (admit (items ! i) st)"
      by (auto simp: admit_def within_bounds_def over_limit_def)
  next
    fix i p and st :: chunk_state assume "?I i st"
    then show "?I (Suc i) (admit (items ! i) (reset_chunk (flushed p st)))"
      by (auto simp: admit_def within_bounds_def reset_chunk_def flushed_def)
  qed auto
  then show ?thesis by auto
qed

lemma chunk_bounds_at:
  assumes "line_limit_of tt = Inr ll"
  shows "\<exists>cs ps. generate_item_chunks items tt plt = Inr (cs, ps) \<and>
     (\<forall>c\<in>set cs. within_bounds ll tt c)"
proof -
  obtain st where st: "chunk_loop items ll tt plt 0 items chunk_state_init = Inr st"
    and sk: "0 \<le> skip st" and b: "\<forall>c\<in>set (chunks st). within_bounds ll tt c"
      "within_bounds ll tt (chunk st)"
    using chunk_loop_bounds by blast
  show ?thesis
  proof (cases "chunk st = []")
    case True
    with st b assms show ?thesis by (simp add: generate_item_chunks_def)
  next
    case False
    from generate_preceding_chunks_ok[OF False sk, of "int (length items)" items plt]
    obtain p where "generate_preceding_chunks items (chunk st) (int (length items)) (skip st) plt = Inr p"
      by auto
    with st b False assms show ?thesis
      by (auto simp: generate_item_chunks_def flush_def flushed_def)
  qed
qed

lemma chunk_bounds_single:
  "generate_item_chunks [item_big] 100 0 = Inr ([[item_big]], [[]]) \<and>
   max 8 (100 div 16) < current_line_length item_big \<and> 100 < token_count item_big"
  by (simp add: chunk_eval)

text \<open>A list of \<open>n\<close> copies of one untranslated one-line item without tokens is one chunk
  as long as \<open>n\<close> does not exceed the line limit.\<close>

lemma chunk_loop_uniform:
  assumes u: "status it = UNTRANSLATED" and l: "current_line_length it = 1"
    and t: "token_count it = 0" and n: "int n \<le> ll" and tt: "0 \<le> tt"
  shows "chunk_loop (replicate n it) ll tt plt 0 (replicate n it) chunk_state_init
       = Inr (chunk_state_init\<lparr>chunk := replicate n it, line_length := int n\<rparr>)"
proof -
  let ?I = "\<lambda>i st. st = chunk_state_init\<lparr>chunk := replicate i it, line_length := int i\<rparr>"
  have "\<exists>st'. chunk_loop (replicate n it) ll tt plt 0 (replicate n it) chunk_state_init = Inr st'
            \<and> ?I (length (replicate n it)) st'"
  proof (rule chunk_loop_rule[where I = ?I])
    show "?I 0 chunk_state_init" by (simp add: chunk_state_init_def)
  next
    fix i and st :: chunk_state
    assume "?I i st" "i < length (replicate n it)"
    then show "?I (Suc i) (admit (replicate n it ! i) st)"
      by (simp add: admit_def chunk_state_init_def l t replicate_append_same)
  next
    fix i p and st :: chunk_state
    assume I: "?I i st" and i: "i < length (replicate n it)" and ne: "chunk st \<noteq> []"
      and ov: "over_limit ll tt (replicate n it ! i) st"
    from I ne have "0 < i" by (cases i) simp_all
    then have "last (replicate i it) = it" by (cases i) simp_all
    with I i n tt have "\<not> over_limit ll tt (replicate n it ! i) st"
      by (simp add: over_limit_def chunk_state_init_def l t)
    with ov show "?I (Suc i) (admit (replicate n it ! i) (reset_chunk (flushed p st)))" by simp
  qed (simp_all add: chunk_state_init_def u)
  then show ?thesis by simp
qed

lemma generate_item_chunks_uniform:
  assumes "status it = UNTRANSLATED" and "current_line_length it = 1"
    and "token_count it = 0" and "line_limit_of tt = Inr ll" and "int n \<le> ll" and "0 \<le> tt"
    and "0 < n"
  shows "generate_item_chunks (replicate n it) tt plt = Inr ([replicate n it], [[]])"
proof -
  have "range_down (int n - 0 - int n - 1) = []" by (simp add: range_down_def)
  then have "generate_preceding_chunks (replicate n it) (replicate n it) (int n) 0 plt = Inr []"
    by (simp add: generate_preceding_chunks_def)
  moreover have "chunk_loop (replicate n it) ll tt plt 0 (replicate n it) chunk_state_init
       = Inr (chunk_state_init\<lparr>chunk := replicate n it, line_length := int n\<rparr>)"
    using assms by (intro chunk_loop_uniform)
  ultimately show ?thesis
    unfolding generate_item_chunks_def assms(4) using assms(7)
    by (simp add: chunk_state_init_def flush_def flushed_def)
qed

text \<open>
  Claim C3 as stated takes \<open>line_limit = max(8, floor(token_threshold / 16))\<close>. The code
  computes the limit through a float: at \<open>token_threshold = 2 ^ 57 + 48\<close> the quotient
  \<open>2 ^ 53 + 3\<close> is no double and rounds to \<open>2 ^ 53 + 4\<close>, and \<open>2 ^ 53 + 4\<close> one-line
  items of one file then form a single chunk, one line over the stated limit.
\<close>

theorem chunk_bounds_counterexample:
  "generate_item_chunks (replicate 9007199254740996 item_line) 144115188075855920 0
     = Inr ([replicate 9007199254740996 item_line], [[]]) \<and>
   1 < length (replicate 9007199254740996 item_line) \<and>
   \<not> (\<Sum>item\<leftarrow>replicate 9007199254740996 item_line. current_line_length item)
       \<le> max 8 (144115188075855920 div 16)"
proof -
  have l: "current_line_length item_line = 1" and u: "status item_line = UNTRANSLATED"
    and t: "token_count item_line = 0"
    by (simp_all add: item_line_def example_item_def current_line_length_def splitlines_def
          strip_def py_isspace_def py_islinebreak_def)
  have "generate_item_chunks (replicate 9007199254740996 item_line) 144115188075855920 0
     = Inr ([replicate 9007199254740996 item_line], [[]])"
    by (rule generate_item_chunks_uniform[OF u l t line_limit_of_rounds]) simp_all
  then show ?thesis by (simp add: l sum_list_replicate)
qed

text \<open>
  Claim C3, amended (chunk bounds). Let \<open>line_limit\<close> be the value the code computes,
  \<open>max(8, int(token_threshold / 16))\<close> with the quotient taken as a float; it equals
  \<open>max(8, floor(token_threshold / 16))\<close> whenever \<open>token_threshold\<close> is below \<open>2 ^ 53\<close> in
  absolute value. Every chunk returned by \<open>generate_item_chunks\<close> that holds more than one
  item has a cumulative non-empty-line count of at most \<open>line_limit\<close> and a cumulative
  token count of at most \<open>token_threshold\<close>; the call returns exactly when the float
  quotient exists. A chunk of exactly one item may exceed both bounds: the planner returns
  the nine-line, 200-token item \<open>item_big\<close> as a chunk of its own under a threshold of 100
  tokens and a line limit of 8.
\<close>

theorem chunk_bounds:
  "(\<forall>cs ps. generate_item_chunks items tt plt = Inr (cs, ps) \<longrightarrow>
      (\<exists>line_limit. line_limit_of tt = Inr line_limit \<and>
         (\<forall>c\<in>set cs. 1 < length c \<longrightarrow>
            (\<Sum>item\<leftarrow>c. current_line_length item) \<le> line_limit
            \<and> (\<Sum>item\<leftarrow>c. token_count item) \<le> tt))) \<and>
   (\<bar>tt\<bar> < 2 ^ 53 \<longrightarrow> line_limit_of tt = Inr (max 8 (tt div 16))) \<and>
   ((\<exists>cs ps. generate_item_chunks items tt plt = Inr (cs, ps)) \<longleftrightarrow>
      (\<exists>line_limit. line_limit_of tt = Inr line_limit)) \<and>
   (generate_item_chunks [item_big] 100 0 = Inr ([[item_big]], [[]]) \<and>
    max 8 (100 div 16) < current_line_length item_big \<and> 100 < token_count item_big)"
proof (intro conjI allI impI)
  fix cs ps assume g: "generate_item_chunks items tt plt = Inr (cs, ps)"
  then obtain ll where ll: "line_limit_of tt = Inr ll"
    using generate_item_chunks_returns_iff[of items tt plt] by blast
  from chunk_bounds_at[OF ll, of items plt] g
  have "\<forall>c\<in>set cs. within_bounds ll tt c" by simp
  with ll show "\<exists>line_limit. line_limit_of tt = Inr line_limit \<and>
         (\<forall>c\<in>set cs. 1 < length c \<longrightarrow>
            (\<Sum>item\<leftarrow>c. current_line_length item) \<le> line_limit
            \<and> (\<Sum>item\<leftarrow>c. token_count item) \<le> tt)"
    by (auto simp: within_bounds_def)
next
  assume "\<bar>tt\<bar> < 2 ^ 53"
  then show "line_limit_of tt = Inr (max 8 (tt div 16))" by (rule line_limit_of_small)
next
  show "(\<exists>cs ps. generate_item_chunks items tt plt = Inr (cs, ps)) \<longleftrightarrow>
      (\<exists>line_limit. line_limit_of tt = Inr line_limit)" by (rule generate_item_chunks_returns_iff)
qed (use chunk_bounds_single in simp_all)

theorem chunk_bounds_witness:
  "generate_item_chunks [item_a, item_b, item_c, item_d, item_e] 100 2
     = Inr ([[item_b, item_c], [item_d], [item_e]], [[], [item_b, item_c], []]) \<and>
   \<bar>100 :: int\<bar> < 2 ^ 53 \<and> line_limit_of 100 = Inr 8 \<and>
   1 < length [item_b, item_c] \<and>
   (\<Sum>item\<leftarrow>[item_b, item_c]. current_line_length item) \<le> 8 \<and>
   (\<Sum>item\<leftarrow>[item_b, item_c]. token_count item) \<le> 100"
proof -
  have "line_limit_of 100 = Inr 8"
    using chunk_bounds [of "[item_a, item_b, item_c, item_d, item_e]" 100 2] by simp
  then show ?thesis using example_chunks by (simp add: chunk_eval)
qed

lemma subseq_rev: "subseq xs ys \<Longrightarrow> subseq (rev xs) (rev ys)"
proof (induction rule: list_emb.induct)
  case (list_emb_Nil ys)
  then show ?case by simp
next
  case (list_emb_Cons xs ys y)
  then show ?case by (simp add: subseq_rev_drop_many)
next
  case (list_emb_Cons2 x y xs ys)
  then show ?case by (simp add: list_emb_append_mono)
qed

lemma map_nth_upt_take: "m \<le> length xs \<Longrightarrow> map ((!) xs) [0..<m] = take m xs"
  by (simp add: list_eq_iff_nth_eq)

lemma subseq_take: "subseq (take m xs) xs"
  by (metis append_take_drop_id subseq_rev_drop_many subseq_order.order_refl)

lemma preceding_walk_props:
  "preceding_walk items ch plt is result = Inr r \<Longrightarrow>
   \<forall>x\<in>set result. preceding_item_ok ch x \<Longrightarrow> int (length result) \<le> max 0 plt \<Longrightarrow>
   (\<forall>x\<in>set r. preceding_item_ok ch x) \<and> int (length r) \<le> max 0 plt \<and>
   (\<exists>ys. r = result @ ys \<and> subseq ys (map ((!) items) is))"
proof (induction "is" arbitrary: result)
  case Nil
  then show ?case by simp
next
  case (Cons i "is")
  from Cons.prems(1) have i: "i < length items" by (auto split: if_splits)
  let ?item = "items ! i"
  consider (skip) "status ?item = EXCLUDED \<or> strip (src ?item) = []"
    | (stop) "\<not> (status ?item = EXCLUDED \<or> strip (src ?item) = [])" "r = result"
    | (add) "preceding_item_ok ch ?item" "int (length result) < plt"
        "preceding_walk items ch plt is (result @ [?item]) = Inr r"
    using Cons.prems(1) i
    by (auto simp: Let_def preceding_item_ok_def split: if_splits)
  then show ?case
  proof cases
    case skip
    with Cons.prems(1) i have "preceding_walk items ch plt is result = Inr r"
      by (auto simp: Let_def split: if_splits)
    from Cons.IH[OF this Cons.prems(2,3)] show ?thesis by auto
  next
    case stop
    with Cons.prems show ?thesis by simp
  next
    case add
    have "\<forall>x\<in>set (result @ [?item]). preceding_item_ok ch x"
      using add(1) Cons.prems(2) by simp
    moreover have "int (length (result @ [?item])) \<le> max 0 plt" using add(2) by simp
    ultimately have "(\<forall>x\<in>set r. preceding_item_ok ch x) \<and> int (length r) \<le> max 0 plt \<and>
      (\<exists>ys. r = (result @ [?item]) @ ys \<and> subseq ys (map ((!) items) is))"
      using Cons.IH[OF add(3)] by blast
    then show ?thesis by auto
  qed
qed

lemma generate_preceding_chunks_props:
  assumes "generate_preceding_chunks items ch start skp plt = Inr p"
    and "0 \<le> skp" "start \<le> int (length items)"
  shows "(\<forall>x\<in>set p. preceding_item_ok ch x) \<and> int (length p) \<le> max 0 plt \<and> subseq p items"
proof -
  let ?n = "start - skp - int (length ch) - 1"
  from assms(1) obtain r where r: "preceding_walk items ch plt (range_down ?n) [] = Inr r"
    and p: "p = rev r"
    by (auto simp: generate_preceding_chunks_def split: sum.splits)
  from preceding_walk_props[OF r] have ok: "\<forall>x\<in>set r. preceding_item_ok ch x"
    and len: "int (length r) \<le> max 0 plt"
    and sub: "subseq r (map ((!) items) (range_down ?n))" by auto
  define m where "m = nat (?n + 1)"
  have m: "m \<le> length items" using assms(2,3) by (simp add: m_def)
  have "range_down ?n = rev [0..<m]" by (simp only: range_down_def m_def)
  then have "map ((!) items) (range_down ?n) = rev (take m items)"
    by (simp add: rev_map [symmetric] map_nth_upt_take [OF m])
  with sub have "subseq r (rev (take m items))" by simp
  from subseq_rev[OF this] have "subseq p (take m items)" by (simp add: p)
  then have "subseq p items" using subseq_take subseq_order.order_trans by blast
  with ok len p show ?thesis by simp
qed

lemma endswith1_single: "endswith1 s [c] \<longleftrightarrow> s \<noteq> [] \<and> last s = c"
  by (cases s rule: rev_cases) (auto simp: endswith1_def)

lemma endswith_punctuation:
  "endswith s END_LINE_PUNCTUATION \<longleftrightarrow> s \<noteq> [] \<and> last s \<in> terminal_marks"
  unfolding endswith_def END_LINE_PUNCTUATION_def terminal_marks_def
  by (simp add: endswith1_single) blast

lemma preceding_aligned:
  assumes "generate_preceding_chunks items ch start skp plt = Inr p"
    and "0 \<le> skp" "start \<le> int (length items)"
    and "\<forall>y\<in>set ch. file_path y = file_path (last ch)"
  shows "aligned items plt p ch"
  using generate_preceding_chunks_props[OF assms(1-3)] assms(4)
  by (auto simp: aligned_def preceding_item_ok_def endswith_punctuation)

lemma chunk_loop_aligned:
  "\<exists>st. chunk_loop items ll tt plt 0 items chunk_state_init = Inr st \<and> 0 \<le> skip st \<and>
        (\<forall>y\<in>set (chunk st). file_path y = file_path (last (chunk st))) \<and>
        list_all2 (aligned items plt) (preceding_chunks st) (chunks st)"
proof -
  let ?I = "\<lambda>(i::nat) st. 0 \<le> skip st
      \<and> (\<forall>y\<in>set (chunk st). file_path y = file_path (last (chunk st)))
      \<and> list_all2 (aligned items plt) (preceding_chunks st) (chunks st)"
  have "\<exists>st'. chunk_loop items ll tt plt 0 items chunk_state_init = Inr st' \<and> ?I (length items) st'"
  proof (rule chunk_loop_rule[where I = ?I])
    show "?I 0 chunk_state_init" by (simp add: chunk_state_init_def)
  next
    fix i and st :: chunk_state
    assume "?I i st" "chunk st = [] \<or> \<not> over_limit ll tt (items ! i) st"
    then show "?I (Suc i) (admit (items ! i) st)"
      by (auto simp: admit_def over_limit_def)
  next
    fix i p and st :: chunk_state
    assume I: "?I i st" and i: "i < length items"
      and p: "generate_preceding_chunks items (chunk st) (int i) (skip st) plt = Inr p"
    from preceding_aligned[OF p] I i have "aligned items plt p (chunk st)" by simp
    with I show "?I (Suc i) (admit (items ! i) (reset_chunk (flushed p st)))"
      by (simp add: admit_def reset_chunk_def flushed_def list_all2_appendI)
  qed auto
  then show ?thesis by auto
qed

lemma preceding_alignment_at:
  assumes "line_limit_of tt = Inr ll"
  shows "\<exists>cs ps. generate_item_chunks items tt plt = Inr (cs, ps) \<and>
     list_all2 (aligned items plt) ps cs"
proof -
  obtain st where st: "chunk_loop items ll tt plt 0 items chunk_state_init = Inr st"
    and sk: "0 \<le> skip st"
    and fp: "\<forall>y\<in>set (chunk st). file_path y = file_path (last (chunk st))"
    and al: "list_all2 (aligned items plt) (preceding_chunks st) (chunks st)"
    using chunk_loop_aligned by blast
  show ?thesis
  proof (cases "chunk st = []")
    case True
    with st al assms show ?thesis by (simp add: generate_item_chunks_def)
  next
    case False
    from generate_preceding_chunks_ok[OF False sk, of "int (length items)" items plt]
    obtain p where p: "generate_preceding_chunks items (chunk st) (int (length items)) (skip st) plt = Inr p"
      by auto
    from preceding_aligned[OF p sk _ fp] have "aligned items plt p (chunk st)" by simp
    with st al False p assms show ?thesis
      by (simp add: generate_item_chunks_def flush_def flushed_def list_all2_appendI)
  qed
qed

text \<open>
  Claim C4 as stated bounds the size of every preceding chunk by
  \<open>preceding_lines_threshold\<close> itself. With a threshold of \<open>-1\<close> every preceding chunk is
  empty (for the single item below there is nothing before the chunk to walk over), and an
  empty chunk holds more than \<open>-1\<close> items.
\<close>

theorem preceding_alignment_counterexample:
  "generate_item_chunks [item_b] 100 (- 1) = Inr ([[item_b]], [[]]) \<and>
   \<not> int (length ([[]] ! 0 :: CacheItem list)) \<le> - 1"
  by (simp add: chunk_eval)

text \<open>
  Claim C4, amended (preceding alignment). Whenever \<open>generate_item_chunks\<close> returns, it
  returns as many preceding chunks as chunks. Each preceding chunk holds at most
  \<open>max(0, preceding_lines_threshold)\<close> items, in the order of the item list; every item in
  it has a status other than \<open>EXCLUDED\<close>, a non-empty stripped \<open>src\<close>, the \<open>file_path\<close> of
  every item of the corresponding chunk, and a stripped \<open>src\<close> whose last character is one
  of the thirteen terminal punctuation marks. The call returns exactly when the float
  quotient \<open>token_threshold / 16\<close> exists, so for every threshold below \<open>2 ^ 53\<close> in absolute
  value.
\<close>

theorem preceding_alignment:
  "(\<forall>cs ps. generate_item_chunks items tt plt = Inr (cs, ps) \<longrightarrow>
     length ps = length cs \<and>
     (\<forall>k<length cs.
        int (length (ps ! k)) \<le> max 0 plt \<and> subseq (ps ! k) items \<and>
        (\<forall>x\<in>set (ps ! k). status x \<noteq> EXCLUDED \<and> strip (src x) \<noteq> []
            \<and> (\<forall>y\<in>set (cs ! k). file_path x = file_path y)
            \<and> last (strip (src x)) \<in> terminal_marks))) \<and>
   ((\<exists>cs ps. generate_item_chunks items tt plt = Inr (cs, ps)) \<longleftrightarrow>
      (\<exists>ll. line_limit_of tt = Inr ll)) \<and>
   (\<bar>tt\<bar> < 2 ^ 53 \<longrightarrow> (\<exists>cs ps. generate_item_chunks items tt plt = Inr (cs, ps)))"
proof (intro conjI allI impI)
  fix cs ps assume g: "generate_item_chunks items tt plt = Inr (cs, ps)"
  then obtain ll where ll: "line_limit_of tt = Inr ll"
    using generate_item_chunks_returns_iff[of items tt plt] by blast
  from preceding_alignment_at[OF ll, of items plt] g
  have a: "list_all2 (aligned items plt) ps cs" by simp
  then show "length ps = length cs" by (rule list_all2_lengthD)
  fix k assume k: "k < length cs"
  with a have al: "aligned items plt (ps ! k) (cs ! k)" by (simp add: list_all2_conv_all_nth)
  then show "int (length (ps ! k)) \<le> max 0 plt" and "subseq (ps ! k) items"
    by (simp_all add: aligned_def)
  from al show "\<forall>x\<in>set (ps ! k). status x \<noteq> EXCLUDED \<and> strip (src x) \<noteq> []
            \<and> (\<forall>y\<in>set (cs ! k). file_path x = file_path y)
            \<and> last (strip (src x)) \<in> terminal_marks"
    by (simp add: aligned_def)
next
  show "(\<exists>cs ps. generate_item_chunks items tt plt = Inr (cs, ps)) \<longleftrightarrow>
      (\<exists>ll. line_limit_of tt = Inr ll)" by (rule generate_item_chunks_returns_iff)
next
  assume "\<bar>tt\<bar> < 2 ^ 53"
  then have "line_limit_of tt = Inr (max 8 (tt div 16))" by (rule line_limit_of_small)
  then show "\<exists>cs ps. generate_item_chunks items tt plt = Inr (cs, ps)"
    using generate_item_chunks_returns_iff[of items tt plt] by blast
qed

theorem preceding_alignment_witness:
  "generate_item_chunks [item_a, item_b, item_c, item_d, item_e] 100 2
     = Inr ([[item_b, item_c], [item_d], [item_e]], [[], [item_b, item_c], []]) \<and>
   (1::nat) < length [[item_b, item_c], [item_d], [item_e]] \<and>
   int (length [item_b, item_c]) \<le> max 0 2 \<and>
   subseq [item_b, item_c] [item_a, item_b, item_c, item_d, item_e] \<and>
   status item_b \<noteq> EXCLUDED \<and> strip (src item_b) \<noteq> [] \<and>
   file_path item_b = file_path item_d \<and> last (strip (src item_b)) \<in> terminal_marks \<and>
   status item_c \<noteq> EXCLUDED \<and> strip (src item_c) \<noteq> [] \<and>
   file_path item_c = file_path item_d \<and> last (strip (src item_c)) \<in> terminal_marks"
proof -
  let ?items = "[item_a, item_b, item_c, item_d, item_e]"
  let ?cs = "[[item_b, item_c], [item_d], [item_e]]"
  let ?ps = "[[], [item_b, item_c], []]"
  have al: "\<forall>k<length ?cs.
        int (length (?ps ! k)) \<le> max 0 2 \<and> subseq (?ps ! k) ?items \<and>
        (\<forall>x\<in>set (?ps ! k). status x \<noteq> EXCLUDED \<and> strip (src x) \<noteq> []
            \<and> (\<forall>y\<in>set (?cs ! k). file_path x = file_path y)
            \<and> last (strip (src x)) \<in> terminal_marks)"
    using preceding_alignment [of ?items 100 2] example_chunks by blast
  have "1 < length ?cs" by simp
  with al have "int (length (?ps ! 1)) \<le> max 0 2 \<and> subseq (?ps ! 1) ?items \<and>
        (\<forall>x\<in>set (?ps ! 1). status x \<noteq> EXCLUDED \<and> strip (src x) \<noteq> []
            \<and> (\<forall>y\<in>set (?cs ! 1). file_path x = file_path y)
            \<and> last (strip (src x)) \<in> terminal_marks)"
    by blast
  then show ?thesis using example_chunks by simp
qed

section \<open>Translator passes: proofs\<close>

lemma length_set_status_at [simp]: "length (set_status_at j xs) = length xs"
  by (simp add: set_status_at_def)

lemma length_fold_set_status_at [simp]: "length (fold set_status_at js xs) = length xs"
  by (induction js arbitrary: xs) simp_all

lemma nth_set_status_at:
  "i < length xs \<Longrightarrow>
   set_status_at j xs ! i = (if i = j then (xs ! i)\<lparr>status := EXCLUDED\<rparr> else xs ! i)"
  by (simp add: set_status_at_def)

lemma nth_fold_set_status_at:
  "i < length xs \<Longrightarrow>
   fold set_status_at js xs ! i = (if i \<in> set js then (xs ! i)\<lparr>status := EXCLUDED\<rparr> else xs ! i)"
proof (induction js arbitrary: xs)
  case Nil
  then show ?case by simp
next
  case (Cons j js)
  have "fold set_status_at (j # js) xs ! i = fold set_status_at js (set_status_at j xs) ! i"
    by simp
  also have "\<dots> = (if i \<in> set js then (set_status_at j xs ! i)\<lparr>status := EXCLUDED\<rparr>
                    else set_status_at j xs ! i)"
    using Cons.IH[of "set_status_at j xs"] Cons.prems by simp
  also have "\<dots> = (if i \<in> set (j # js) then (xs ! i)\<lparr>status := EXCLUDED\<rparr> else xs ! i)"
    using Cons.prems by (auto simp: nth_set_status_at)
  finally show ?case .
qed

text \<open>
  Claim C10 (frame of the filters). \<open>rule_filter\<close> and \<open>language_filter\<close> keep the
  length of the list; at every position, an item whose \<open>src\<close> satisfies the filter
  predicate comes out with status \<open>EXCLUDED\<close> and every other field as before, whatever
  its status was, and an item whose \<open>src\<close> does not satisfy it comes out unchanged.
\<close>

theorem filters_frame:
  "length (rule_filter rf xs) = length xs \<and>
   length (language_filter lf lang xs) = length xs \<and>
   (\<forall>i<length xs.
      rule_filter rf xs ! i =
        (if rf (src (xs ! i)) (skip_internal_filter (xs ! i))
         then (xs ! i)\<lparr>status := EXCLUDED\<rparr> else xs ! i) \<and>
      language_filter lf lang xs ! i =
        (if lf (src (xs ! i)) lang then (xs ! i)\<lparr>status := EXCLUDED\<rparr> else xs ! i))"
  by (simp add: rule_filter_def language_filter_def nth_fold_set_status_at)

theorem filters_frame_witness:
  "(0::nat) < length [item_a, item_b] \<and> (1::nat) < length [item_a, item_b] \<and>
   status item_a = TRANSLATED \<and>
   rule_filter example_rule_filter [item_a, item_b] ! 0 = item_a\<lparr>status := EXCLUDED\<rparr> \<and>
   rule_filter example_rule_filter [item_a, item_b] ! 1 = item_b \<and>
   language_filter example_language_filter JA [item_a, item_b] ! 0 = item_a \<and>
   language_filter example_language_filter JA [item_a, item_b] ! 1 = item_b\<lparr>status := EXCLUDED\<rparr>"
  using filters_frame [of example_rule_filter "[item_a, item_b]" example_language_filter JA]
  by (simp add: example_rule_filter_def example_language_filter_def item_a_def item_b_def
        example_item_def)

lemma fold_append_each: "fold (\<lambda>p acc. acc @ [f p]) ps acc = acc @ map f ps"
  by (induction ps arbitrary: acc) simp_all

lemma postprocess_item_append: "postprocess_item n item acc = acc @ new_items n item"
  by (simp add: postprocess_item_def new_items_def fold_append_each)

lemma fold_postprocess_item:
  "fold (postprocess_item n) grp acc = acc @ concat (map (new_items n) grp)"
  by (induction grp arbitrary: acc) (simp_all add: postprocess_item_append)

lemma fold_groups:
  "fold (\<lambda>grp acc. fold (postprocess_item (length grp)) grp acc) gs acc
   = acc @ concat (map (\<lambda>grp. concat (map (new_items (length grp)) grp)) gs)"
  by (induction gs arbitrary: acc) (simp_all add: fold_postprocess_item)

lemma setdefault_append_new:
  "k \<notin> fst ` set g \<Longrightarrow> setdefault_append g k v = g @ [(k, [v])]"
  by (induction g) auto

lemma setdefault_append_old:
  "k \<in> fst ` set g \<Longrightarrow> distinct (map fst g) \<Longrightarrow>
   setdefault_append g k v = map (\<lambda>(k', l). if k' = k then (k', l @ [v]) else (k', l)) g"
proof (induction g)
  case Nil
  then show ?case by simp
next
  case (Cons a g)
  obtain k' l where a: "a = (k', l)" by (cases a)
  show ?case
  proof (cases "k' = k")
    case True
    with Cons.prems a have "k \<notin> fst ` set g" by auto
    then have "map (\<lambda>(k', l). if k' = k then (k', l @ [v]) else (k', l)) g = g"
      by (intro map_idI) force
    with True a show ?thesis by simp
  next
    case False
    with Cons a show ?thesis by auto
  qed
qed

lemma grouped_step:
  assumes "grouped g xs"
  shows "grouped (setdefault_append g (file_path x) x) (xs @ [x])"
proof (cases "file_path x \<in> fst ` set g")
  case True
  from assms have d: "distinct (map fst g)" and ks: "fst ` set g = file_path ` set xs"
    and mem: "\<And>k l. (k, l) \<in> set g \<Longrightarrow> l = filter (\<lambda>y. file_path y = k) xs"
    by (auto simp: grouped_def)
  define u :: "pystr \<times> CacheItem list \<Rightarrow> pystr \<times> CacheItem list"
    where "u = (\<lambda>(k', l). if k' = file_path x then (k', l @ [x]) else (k', l))"
  have eq: "setdefault_append g (file_path x) x = map u g"
    unfolding u_def by (rule setdefault_append_old[OF True d])
  have fu: "\<And>p. fst (u p) = fst p" by (auto simp: u_def split: prod.splits)
  then have fst: "map fst (map u g) = map fst g" by simp
  have 1: "distinct (map fst (map u g))" unfolding fst by (rule d)
  have "fst ` set (map u g) = fst ` set g" using fst by (metis list.set_map)
  with ks True have 2: "fst ` set (map u g) = file_path ` set (xs @ [x])" by auto
  have 3: "l = filter (\<lambda>y. file_path y = k) (xs @ [x])" if "(k, l) \<in> set (map u g)" for k l
  proof -
    from that obtain k0 l0 where in0: "(k0, l0) \<in> set g" and kl: "(k, l) = u (k0, l0)" by auto
    from mem[OF in0] kl show ?thesis by (auto simp: u_def split: if_splits)
  qed
  show ?thesis unfolding eq grouped_def using 1 2 3 by blast
next
  case False
  then have eq: "setdefault_append g (file_path x) x = g @ [(file_path x, [x])]"
    by (rule setdefault_append_new)
  from assms have d: "distinct (map fst g)" and ks: "fst ` set g = file_path ` set xs"
    and mem: "\<And>k l. (k, l) \<in> set g \<Longrightarrow> l = filter (\<lambda>y. file_path y = k) xs"
    by (auto simp: grouped_def)
  from False ks have "file_path x \<notin> file_path ` set xs" by simp
  then have none: "filter (\<lambda>y. file_path y = file_path x) xs = []"
    unfolding filter_empty_conv by (metis imageI)
  have 1: "distinct (map fst (g @ [(file_path x, [x])]))" using d False by simp
  have 2: "fst ` set (g @ [(file_path x, [x])]) = file_path ` set (xs @ [x])"
    using ks by auto
  have 3: "l = filter (\<lambda>y. file_path y = k) (xs @ [x])"
    if "(k, l) \<in> set (g @ [(file_path x, [x])])" for k l
  proof (cases "(k, l) \<in> set g")
    case True
    then have "k \<noteq> file_path x" using False by force
    with mem[OF True] show ?thesis by simp
  next
    case False
    with that have "k = file_path x" "l = [x]" by auto
    with none show ?thesis by simp
  qed
  show ?thesis unfolding eq grouped_def using 1 2 3 by blast
qed

lemma grouped_fold:
  "grouped g pre \<Longrightarrow>
   grouped (fold (\<lambda>item g. setdefault_append g (file_path item) item) xs g) (pre @ xs)"
proof (induction xs arbitrary: g pre)
  case Nil
  then show ?case by simp
next
  case (Cons x xs)
  from Cons.IH[OF grouped_step[OF Cons.prems, of x]] show ?case by simp
qed

lemma grouped_group_by_file_path: "grouped (group_by_file_path xs) xs"
  using grouped_fold[of "[]" "[]" xs] by (simp add: group_by_file_path_def grouped_def)

lemma mset_setdefault_append:
  "mset (concat (map snd (setdefault_append g k v))) = add_mset v (mset (concat (map snd g)))"
  by (induction g) auto

lemma mset_fold_groups:
  "mset (concat (map snd (fold (\<lambda>item g. setdefault_append g (file_path item) item) xs g)))
   = mset (concat (map snd g)) + mset xs"
  by (induction xs arbitrary: g) (simp_all add: mset_setdefault_append)

lemma mset_group_by_file_path: "mset (concat (map snd (group_by_file_path xs))) = mset xs"
  by (simp add: group_by_file_path_def mset_fold_groups)

lemma mset_concat_map_cong:
  assumes "mset xs = mset ys"
  shows "mset (concat (map f xs)) = mset (concat (map f ys))"
proof -
  have "\<And>zs. mset (concat (map f zs)) = (\<Sum>z\<in>#mset zs. mset (f z))"
    by (induct_tac zs) simp_all
  with assms show ?thesis by simp
qed

lemma concat_map_concat:
  "concat (map (\<lambda>grp. concat (map f grp)) gs) = concat (map f (concat gs))"
  by (induction gs) simp_all

lemma line_items_new_items:
  "new_items (group_size xs item) item = (if multi_line item then line_items xs item else [])"
  by (simp add: new_items_def line_items_def)

lemma group_lengths:
  assumes "(k, grp) \<in> set (group_by_file_path (filter (\<lambda>x. file_type x = KVJSON) xs))"
    and "item \<in> set grp"
  shows "length grp = group_size xs item"
proof -
  let ?kv = "filter (\<lambda>x. file_type x = KVJSON) xs"
  from grouped_group_by_file_path[of ?kv] assms(1)
  have grp: "grp = filter (\<lambda>x. file_path x = k) ?kv" by (auto simp: grouped_def)
  with assms(2) have "file_path item = k" by simp
  with grp show ?thesis by (simp add: group_size_def conj_commute)
qed

lemma postprocess_appends:
  assumes "xs \<noteq> []"
  shows "mtool_optimizer_postprocess True xs
       = xs @ concat (map (\<lambda>item. new_items (group_size xs item) item)
                (concat (map snd (group_by_file_path (filter (\<lambda>x. file_type x = KVJSON) xs)))))"
proof -
  let ?G = "group_by_file_path (filter (\<lambda>x. file_type x = KVJSON) xs)"
  have "map (\<lambda>grp. concat (map (new_items (length grp)) grp)) (map snd ?G)
      = map (\<lambda>grp. concat (map (\<lambda>item. new_items (group_size xs item) item) grp)) (map snd ?G)"
  proof (rule map_cong[OF refl])
    fix grp assume "grp \<in> set (map snd ?G)"
    then obtain k where "(k, grp) \<in> set ?G" by auto
    then have "\<And>item. item \<in> set grp \<Longrightarrow> length grp = group_size xs item"
      by (rule group_lengths)
    then have "map (new_items (length grp)) grp
             = map (\<lambda>item. new_items (group_size xs item) item) grp"
      by (intro map_cong[OF refl]) simp
    then show "concat (map (new_items (length grp)) grp)
             = concat (map (\<lambda>item. new_items (group_size xs item) item) grp)"
      by (rule arg_cong[where f = concat])
  qed
  moreover have "mtool_optimizer_postprocess True xs
      = xs @ concat (map (\<lambda>grp. concat (map (new_items (length grp)) grp)) (map snd ?G))"
    using assms by (simp add: mtool_optimizer_postprocess_def Let_def fold_groups)
  ultimately show ?thesis by (simp only: concat_map_concat)
qed

lemma concat_map_filter_if:
  "concat (map (\<lambda>x. if P x then f x else []) xs) = concat (map f (filter P xs))"
  by (induction xs) simp_all

lemma line_items_fields:
  assumes "x \<in> set (line_items xs item)"
  shows "status x = status item \<and> file_path x = file_path item \<and> file_type x = file_type item \<and>
         token_count x = token_count item \<and> retry_count x = retry_count item \<and>
         skip_internal_filter x = skip_internal_filter item \<and> row x = int (group_size xs item)"
  using assms by (auto simp: line_items_def item_ex_def)

lemma line_items_texts:
  "map (\<lambda>x. (src x, dst x)) (line_items xs item)
   = map (\<lambda>(s, d). (strip s, strip d))
       (zip_longest (splitlines (src item)) (splitlines (dst item)) [])"
  by (simp add: line_items_def item_ex_def split_def)

text \<open>
  Claim C8 (MTool postprocess). With \<open>enable\<close> set and a non-empty list,
  \<open>mtool_optimizer_postprocess\<close> returns the list it was given, unchanged, followed by new
  items. The new items are, up to their order, the \<open>line_items\<close> of every KVJSON item
  whose \<open>src\<close> contains a newline: one item per zip-longest pair of the parent's source
  and destination lines (an empty string filling the shorter side), holding the stripped
  pair as \<open>src\<close> and \<open>dst\<close>, the number of KVJSON items of the parent's \<open>file_path\<close> as
  \<open>row\<close>, and the parent's value in every other field.
\<close>

theorem postprocess_expands:
  assumes "enable" and "xs \<noteq> []"
  shows "\<exists>new. mtool_optimizer_postprocess enable xs = xs @ new \<and>
     mset new = mset (concat (map (line_items xs)
                        (filter (\<lambda>item. file_type item = KVJSON \<and> multi_line item) xs))) \<and>
     (\<forall>item. map (\<lambda>x. (src x, dst x)) (line_items xs item)
               = map (\<lambda>(s, d). (strip s, strip d))
                   (zip_longest (splitlines (src item)) (splitlines (dst item)) []) \<and>
             (\<forall>x\<in>set (line_items xs item).
                status x = status item \<and> file_path x = file_path item \<and>
                file_type x = file_type item \<and> token_count x = token_count item \<and>
                retry_count x = retry_count item \<and>
                skip_internal_filter x = skip_internal_filter item \<and>
                row x = int (length (filter (\<lambda>y. file_type y = KVJSON \<and>
                                                  file_path y = file_path item) xs))))"
proof -
  let ?kv = "filter (\<lambda>x. file_type x = KVJSON) xs"
  let ?nw = "\<lambda>item. new_items (group_size xs item) item"
  let ?new = "concat (map ?nw (concat (map snd (group_by_file_path ?kv))))"
  have "mset ?new = mset (concat (map ?nw ?kv))"
    by (rule mset_concat_map_cong) (rule mset_group_by_file_path)
  also have "concat (map ?nw ?kv)
      = concat (map (line_items xs) (filter multi_line ?kv))"
    by (simp add: line_items_new_items concat_map_filter_if)
  also have "filter multi_line ?kv = filter (\<lambda>item. file_type item = KVJSON \<and> multi_line item) xs"
    by (simp add: conj_commute)
  finally have "mset ?new = mset (concat (map (line_items xs)
                        (filter (\<lambda>item. file_type item = KVJSON \<and> multi_line item) xs)))" .
  moreover from assms have "mtool_optimizer_postprocess enable xs = xs @ ?new"
    using postprocess_appends[OF assms(2)] by (simp add: eq_True[THEN iffD1])
  moreover have "\<And>item x. x \<in> set (line_items xs item) \<Longrightarrow>
      row x = int (length (filter (\<lambda>y. file_type y = KVJSON \<and> file_path y = file_path item) xs))"
    using line_items_fields by (simp add: group_size_def)
  ultimately show ?thesis using line_items_fields line_items_texts by blast
qed

lemmas mtool_eval = mtool_optimizer_postprocess_def group_by_file_path_def postprocess_item_def
  multi_line_def item_ex_def kv_two_def kv_one_def kv_item_def splitlines_def strip_def
  py_isspace_def py_islinebreak_def Let_def

lemma example_postprocess:
  "mtool_optimizer_postprocess True [kv_two, kv_one, item_a]
     = [kv_two, kv_one, item_a] @
       [kv_two\<lparr>src := [97], dst := [120], row := 2\<rparr>,
        kv_two\<lparr>src := [98], dst := [], row := 2\<rparr>]"
  by (simp add: mtool_eval item_a_def example_item_def)

theorem postprocess_expands_witness:
  "True \<and> [kv_two, kv_one, item_a] \<noteq> [] \<and>
   mtool_optimizer_postprocess True [kv_two, kv_one, item_a]
     = [kv_two, kv_one, item_a] @
       [kv_two\<lparr>src := [97], dst := [120], row := 2\<rparr>,
        kv_two\<lparr>src := [98], dst := [], row := 2\<rparr>]"
  using postprocess_expands [of True "[kv_two, kv_one, item_a]"] example_postprocess
  by simp

section \<open>Progress bookkeeping: proofs\<close>





section \<open>The end of a translation run: proofs\<close>

section \<open>The end of a translation run: proofs\<close>






















end
